theory Spec2Isabelle
  imports Main
begin

section \<open>The zod engine of ghii: data model\<close>

text \<open>
  The adapter in \<^verbatim>\<open>src/ghiiEngineZod.ts\<close> is one function, \<^verbatim>\<open>zodEngine\<close>, that
  closes two methods over a retained schema and calls three things it does not define:
  the schema factory handed in by the caller, the validation library (\<^verbatim>\<open>z.safeParse\<close>,
  \<^verbatim>\<open>z.toJSONSchema\<close>) and the language's own \<^verbatim>\<open>Array.prototype.join\<close>,
  \<^verbatim>\<open>Array.prototype.map\<close> and \<^verbatim>\<open>JSON.stringify\<close>. The library and the factory are
  parameters of the model: functions that either return or throw, where one call is
  looked at, and functions of the library's state as well, where calls are compared. The
  language built-ins are written out as ECMAScript defines them.
\<close>

text \<open>A thrown JavaScript value. Every throw of the program is a \<open>Inl\<close> of the model.\<close>

datatype js_exn = TypeError string | Thrown string

text \<open>
  A segment of an issue path. The library types a path as \<^verbatim>\<open>PropertyKey[]\<close>, and a
  JavaScript property key is a string, a number or a symbol (the symbol carries its
  description). Numbers are the integers, which covers array indices.
\<close>

datatype PropertyKey = PString string | PNumber int | PSymbol string

text \<open>
  One issue as the library reports it. The adapter reads \<^verbatim>\<open>path\<close>, \<^verbatim>\<open>input\<close>,
  \<^verbatim>\<open>code\<close> and \<^verbatim>\<open>message\<close>; \<open>issue_input\<close> is \<open>None\<close> where the property is
  \<^verbatim>\<open>undefined\<close>; \<open>issue_rest\<close> holds the properties the adapter never reads
  (\<^verbatim>\<open>expected\<close>, \<^verbatim>\<open>minimum\<close>, ...), so that the whole object can be passed on.
\<close>

record 'v ZodIssue =
  issue_code :: string
  issue_input :: "'v option"
  issue_path :: "PropertyKey list"
  issue_message :: string
  issue_rest :: "(string \<times> 'v) list"

text \<open>
  The result object of \<^verbatim>\<open>z.safeParse\<close>: \<^verbatim>\<open>{success: true, data}\<close> or
  \<^verbatim>\<open>{success: false, error}\<close>, of which the adapter reads \<^verbatim>\<open>error.issues\<close>.
\<close>

datatype 'v SafeParseResult = SafeParseSuccess 'v | SafeParseError "'v ZodIssue list"

text \<open>
  A JavaScript number inside a document. A finite number is given by the decimal that
  JavaScript prints for it, the shortest one that reads back as the same double:
  \<open>Finite negative s e\<close> is \<open>s\<close> times ten to the power \<open>e\<close>, below zero where \<open>negative\<close>
  holds (\<open>0.5\<close> is \<open>Finite False 5 (- 1)\<close>, and \<open>Finite True 0 0\<close> is minus zero). The same
  number has many such pairs, \<open>5\<close> and \<open>- 1\<close> or \<open>50\<close> and \<open>- 2\<close>; they print alike. The
  rounding of doubles is not part of the model: every decimal is a number here.
\<close>

datatype js_number = Finite bool nat int | NaN | Infinity bool

text \<open>
  A JSON document, the value \<^verbatim>\<open>z.toJSONSchema\<close> returns. An object is the list of its
  members in property order. A string is the list of its bytes in UTF-8, the encoding
  the specification gives the output; a character outside ASCII is several bytes, each
  above 127.
\<close>

datatype json =
    JNull
  | JBool bool
  | JNumber js_number
  | JString string
  | JArray "json list"
  | JObject "(string \<times> json) list"

text \<open>
  The library namespace \<^verbatim>\<open>z\<close> as far as the adapter can reach it: the non-throwing
  entry point \<^verbatim>\<open>safeParse\<close>, the throwing one \<^verbatim>\<open>parse\<close> and the converter
  \<^verbatim>\<open>toJSONSchema\<close>. \<open>'s\<close> is the type of the values that can stand where a schema is
  expected, \<open>'v\<close> the type of candidate values. Each entry point may throw (\<open>Inl\<close>), as it
  does when what it is given is no schema.
\<close>

record ('s, 'v) zod =
  safeParse :: "'s \<Rightarrow> 'v \<Rightarrow> js_exn + 'v SafeParseResult"
  parse :: "'s \<Rightarrow> 'v \<Rightarrow> js_exn + 'v"
  toJSONSchema :: "'s \<Rightarrow> js_exn + json"

text \<open>
  The argument of \<^verbatim>\<open>zodEngine\<close>, split the way \<^verbatim>\<open>typeof schema === 'function'\<close>
  splits it: a function, which is called with the namespace, or any other value.
\<close>

datatype ('s, 'v) schema_arg =
    Function "('s, 'v) zod \<Rightarrow> js_exn + 's"
  | NotFunction 's

text \<open>The calls that leave the adapter, logged in the order they are made.\<close>

datatype call = Call_factory | Call_safeParse | Call_parse | Call_toJSONSchema

text \<open>
  The object \<^verbatim>\<open>zodEngine\<close> returns is two closures over the constant \<^verbatim>\<open>_schema\<close>;
  the captured constant is all the state there is.
\<close>

record 's GhiiEngine =
  the_schema :: 's

text \<open>An element of \<^verbatim>\<open>errors\<close>; \<open>raw\<close> is the property \<^verbatim>\<open>_raw\<close>.\<close>

record 'v Issue =
  path :: string
  input :: "'v option"
  details :: string
  message :: string
  raw :: "'v ZodIssue"

text \<open>What \<^verbatim>\<open>validate\<close> returns: \<^verbatim>\<open>{success: true, value}\<close> or \<^verbatim>\<open>{success: false, errors}\<close>.\<close>

datatype 'v outcome = Success 'v | Failure "'v Issue list"

section \<open>The language built-ins the adapter calls\<close>

subsection \<open>Number to string, for integers\<close>

definition digit_char :: "nat \<Rightarrow> char" where
  "digit_char d = ''0123456789'' ! d"

fun nat_digits :: "nat \<Rightarrow> string" where
  "nat_digits n = (if n < 10 then [digit_char n] else nat_digits (n div 10) @ [digit_char (n mod 10)])"

declare nat_digits.simps [simp del]

text \<open>
  \<^verbatim>\<open>Number::toString\<close> on an integer: the decimal digits, after a minus sign below zero
  (the rendering of JavaScript for every integer of magnitude below \<open>10^21\<close>).
\<close>

definition Number_toString :: "int \<Rightarrow> string" where
  "Number_toString n = (if n < 0 then CHR ''-'' # nat_digits (nat (- n)) else nat_digits (nat n))"

subsection \<open>Number to string, for the numbers of a document\<close>

text \<open>
  \<^verbatim>\<open>Number::toString\<close> works on the digits of \<open>s\<close> and the position \<open>n\<close> of the decimal
  point, where \<open>s\<close> has as few digits as possible. \<open>lowest_terms\<close> finds that \<open>s\<close>:
  zeros at its end move into the exponent.
\<close>

fun lowest_terms :: "nat \<Rightarrow> int \<Rightarrow> nat \<times> int" where
  "lowest_terms s e =
     (if s = 0 then (0, 0)
      else if s mod 10 = 0 then lowest_terms (s div 10) (e + 1)
      else (s, e))"

declare lowest_terms.simps [simp del]

text \<open>The exponent of the scientific form: its sign, always written, and its digits.\<close>

definition exponent_text :: "int \<Rightarrow> string" where
  "exponent_text x = (if x < 0 then CHR ''-'' else CHR ''+'') # nat_digits (nat \<bar>x\<bar>)"

text \<open>
  The five forms of \<^verbatim>\<open>Number::toString\<close> for \<open>k\<close> digits and the decimal point behind
  the \<open>n\<close>-th of them: the digits and \<open>n - k\<close> zeros; the digits with the point among
  them; \<open>0.\<close>, \<open>- n\<close> zeros and the digits; and beyond 21 digits before the point or 6
  zeros behind it the scientific form, of one digit or of several.
\<close>

definition decimal_text :: "nat \<Rightarrow> int \<Rightarrow> string" where
  "decimal_text s e =
     (let ds = nat_digits s; k = int (length ds); n = k + e
      in if k \<le> n \<and> n \<le> 21 then ds @ replicate (nat (n - k)) (CHR ''0'')
         else if 0 < n \<and> n \<le> 21 then take (nat n) ds @ ''.'' @ drop (nat n) ds
         else if - 6 < n \<and> n \<le> 0 then ''0.'' @ replicate (nat (- n)) (CHR ''0'') @ ds
         else if k = 1 then ds @ ''e'' @ exponent_text (n - 1)
         else hd ds # ''.'' @ tl ds @ ''e'' @ exponent_text (n - 1))"

text \<open>\<^verbatim>\<open>Number::toString\<close>: both zeros print as \<open>0\<close>.\<close>

fun Number_text :: "js_number \<Rightarrow> string" where
  "Number_text NaN = ''NaN''"
| "Number_text (Infinity negative) = (if negative then ''-Infinity'' else ''Infinity'')"
| "Number_text (Finite negative s e) =
     (case lowest_terms s e of
        (s', e') \<Rightarrow>
          if s' = 0 then ''0''
          else (if negative then ''-'' else []) @ decimal_text s' e')"

definition is_finite :: "js_number \<Rightarrow> bool" where
  "is_finite x = (case x of Finite negative s e \<Rightarrow> True | _ \<Rightarrow> False)"

subsection \<open>\<^verbatim>\<open>Array.prototype.join\<close> and \<^verbatim>\<open>Array.prototype.map\<close>\<close>

text \<open>
  \<^verbatim>\<open>ToString\<close> of a property key: a string is itself, a number is rendered, a symbol
  throws a TypeError.
\<close>

fun ToString :: "PropertyKey \<Rightarrow> js_exn + string" where
  "ToString (PString s) = Inr s"
| "ToString (PNumber n) = Inr (Number_toString n)"
| "ToString (PSymbol d) = Inl (TypeError ''Cannot convert a Symbol value to a string'')"

text \<open>
  \<^verbatim>\<open>xs.join(sep)\<close>: the elements converted left to right with the separator between
  them, the empty string for the empty array; the first conversion that throws ends it.
\<close>

fun Array_join :: "PropertyKey list \<Rightarrow> string \<Rightarrow> js_exn + string" where
  "Array_join [] sep = Inr []"
| "Array_join [k] sep = ToString k"
| "Array_join (k # ks) sep =
     (case ToString k of
        Inl e \<Rightarrow> Inl e
      | Inr s \<Rightarrow> (case Array_join ks sep of Inl e \<Rightarrow> Inl e | Inr r \<Rightarrow> Inr (s @ sep @ r)))"

text \<open>\<^verbatim>\<open>xs.map(f)\<close> for a callback that may throw: the first throw ends the loop.\<close>

fun Array_map :: "('a \<Rightarrow> js_exn + 'b) \<Rightarrow> 'a list \<Rightarrow> js_exn + 'b list" where
  "Array_map f [] = Inr []"
| "Array_map f (x # xs) =
     (case f x of
        Inl e \<Rightarrow> Inl e
      | Inr y \<Rightarrow> (case Array_map f xs of Inl e \<Rightarrow> Inl e | Inr ys \<Rightarrow> Inr (y # ys)))"

section \<open>The adapter\<close>

text \<open>
  \<^verbatim>\<open>const _schema = typeof schema === 'function' ? schema(z) : schema;\<close> and the returned
  object. A throw of the factory leaves \<^verbatim>\<open>zodEngine\<close> uncaught.
\<close>

definition zodEngine ::
  "('s, 'v) zod \<Rightarrow> ('s, 'v) schema_arg \<Rightarrow> (js_exn + 's GhiiEngine) \<times> call list" where
  "zodEngine z schema =
     (case schema of
        Function f \<Rightarrow>
          (case f z of
             Inl e \<Rightarrow> (Inl e, [Call_factory])
           | Inr s \<Rightarrow> (Inr \<lparr>the_schema = s\<rparr>, [Call_factory]))
      | NotFunction s \<Rightarrow> (Inr \<lparr>the_schema = s\<rparr>, []))"

text \<open>The callback of \<^verbatim>\<open>result.error.issues.map\<close>.\<close>

definition to_Issue :: "'v ZodIssue \<Rightarrow> js_exn + 'v Issue" where
  "to_Issue issue =
     (case Array_join (issue_path issue) ''.'' of
        Inl e \<Rightarrow> Inl e
      | Inr p \<Rightarrow>
          Inr \<lparr>path = p,
               input = issue_input issue,
               details = issue_code issue,
               message = issue_message issue,
               raw = issue\<rparr>)"

definition validate ::
  "('s, 'v) zod \<Rightarrow> 's GhiiEngine \<Rightarrow> 'v \<Rightarrow> (js_exn + 'v outcome) \<times> call list" where
  "validate z engine toValidate =
     (case safeParse z (the_schema engine) toValidate of
        Inl e \<Rightarrow> (Inl e, [Call_safeParse])
      | Inr (SafeParseSuccess d) \<Rightarrow> (Inr (Success d), [Call_safeParse])
      | Inr (SafeParseError issues) \<Rightarrow>
          (case Array_map to_Issue issues of
             Inl e \<Rightarrow> (Inl e, [Call_safeParse])
           | Inr errors \<Rightarrow> (Inr (Failure errors), [Call_safeParse])))"

subsection \<open>\<^verbatim>\<open>JSON.stringify\<close>\<close>

definition dquote :: char where "dquote = CHR 0x22"
definition backslash :: char where "backslash = CHR 0x5C"
definition newline :: char where "newline = CHR 0x0A"

definition hex_char :: "nat \<Rightarrow> char" where
  "hex_char d = ''0123456789abcdef'' ! d"

text \<open>
  One byte inside \<^verbatim>\<open>QuoteJSONString\<close>: the two-character escapes of the table,
  \<^verbatim>\<open>\u00XX\<close> in lower-case hexadecimal for the other characters below U+0020, and the
  byte itself otherwise, which passes every other character through unchanged.
\<close>

definition quote_unit :: "char \<Rightarrow> string" where
  "quote_unit c =
     (if c = CHR 0x08 then [backslash, CHR ''b'']
      else if c = CHR 0x09 then [backslash, CHR ''t'']
      else if c = CHR 0x0A then [backslash, CHR ''n'']
      else if c = CHR 0x0C then [backslash, CHR ''f'']
      else if c = CHR 0x0D then [backslash, CHR ''r'']
      else if c = dquote then [backslash, dquote]
      else if c = backslash then [backslash, backslash]
      else if (of_char c :: nat) < 32
        then [backslash, CHR ''u'', CHR ''0'', CHR ''0'',
              hex_char (of_char c div 16), hex_char (of_char c mod 16)]
      else [c])"

definition QuoteJSONString :: "string \<Rightarrow> string" where
  "QuoteJSONString s = dquote # concat (map quote_unit s) @ [dquote]"

text \<open>The elements of \<open>partial\<close> concatenated with the separator between them.\<close>

fun join_lists :: "'a list list \<Rightarrow> 'a list \<Rightarrow> 'a list" where
  "join_lists [] sep = []"
| "join_lists [x] sep = x"
| "join_lists (x # xs) sep = x @ sep @ join_lists xs sep"

text \<open>
  The last steps of \<^verbatim>\<open>SerializeJSONObject\<close> and \<^verbatim>\<open>SerializeJSONArray\<close>, which differ
  in the brackets only: nothing between the brackets for no element; the elements
  separated by commas when the gap is empty; otherwise every element on a line of its
  own behind the new indent, and the closing bracket on a line behind the old one.
\<close>

definition wrap_partial :: "string \<Rightarrow> string \<Rightarrow> char \<Rightarrow> char \<Rightarrow> string list \<Rightarrow> string" where
  "wrap_partial gap stepback opening closing partial =
     (if partial = [] then [opening, closing]
      else if gap = [] then opening # join_lists partial '','' @ [closing]
      else
        (let indent = stepback @ gap;
             separator = '','' @ [newline] @ indent
         in opening # newline # indent @ join_lists partial separator
              @ [newline] @ stepback @ [closing]))"

text \<open>
  \<^verbatim>\<open>SerializeJSONProperty\<close> with the state's \<open>gap\<close> and \<open>indent\<close>: a finite number
  is printed by \<^verbatim>\<open>Number::toString\<close> and any other number as \<open>null\<close>; a member of an
  object is its quoted key, a colon, a space when the gap is not empty, and its value.
\<close>

fun SerializeJSONProperty :: "string \<Rightarrow> string \<Rightarrow> json \<Rightarrow> string" where
  "SerializeJSONProperty gap indent JNull = ''null''"
| "SerializeJSONProperty gap indent (JBool b) = (if b then ''true'' else ''false'')"
| "SerializeJSONProperty gap indent (JNumber x) = (if is_finite x then Number_text x else ''null'')"
| "SerializeJSONProperty gap indent (JString s) = QuoteJSONString s"
| "SerializeJSONProperty gap indent (JArray xs) =
     wrap_partial gap indent (CHR ''['') (CHR '']'')
       (map (SerializeJSONProperty gap (indent @ gap)) xs)"
| "SerializeJSONProperty gap indent (JObject ms) =
     wrap_partial gap indent (CHR ''{'') (CHR ''}'')
       (map (\<lambda>m. QuoteJSONString (fst m) @ '':'' @ (if gap = [] then [] else '' '')
                   @ SerializeJSONProperty gap (indent @ gap) (snd m)) ms)"

text \<open>
  \<^verbatim>\<open>JSON.stringify(value, null, space)\<close> for a number \<open>space\<close>: the gap is that many
  spaces, ten at most.
\<close>

definition JSON_stringify :: "json \<Rightarrow> nat \<Rightarrow> string" where
  "JSON_stringify v space = SerializeJSONProperty (replicate (min 10 space) (CHR '' '')) [] v"

section \<open>The adapter, continued\<close>

text \<open>
  \<^verbatim>\<open>toJsonSchema(pretty = false)\<close>: the argument is \<open>None\<close> when it is left out, and
  the default then applies. A throw of the converter is not caught.
\<close>

definition toJsonSchema ::
  "('s, 'v) zod \<Rightarrow> 's GhiiEngine \<Rightarrow> bool option \<Rightarrow> (js_exn + string) \<times> call list" where
  "toJsonSchema z engine arg =
     (let pretty = (case arg of None \<Rightarrow> False | Some b \<Rightarrow> b)
      in case toJSONSchema z (the_schema engine) of
           Inl e \<Rightarrow> (Inl e, [Call_toJSONSchema])
         | Inr doc \<Rightarrow> (Inr (JSON_stringify doc (if pretty then 2 else 0)), [Call_toJSONSchema]))"

section \<open>The adapter over a library that has state\<close>

text \<open>
  A schema may hold code of the host, such as a refinement, which the library runs each
  time it checks a value, and the library keeps registries of its own that the
  converter reads. What an entry point answers may so depend on what ran before, and
  running it may change what is answered later. \<open>'w\<close> is the type of that state: an
  entry point takes the state it is called in and returns its answer with the state it
  leaves.
\<close>

record ('s, 'v, 'w) zod_st =
  safeParse_st :: "'s \<Rightarrow> 'v \<Rightarrow> 'w \<Rightarrow> (js_exn + 'v SafeParseResult) \<times> 'w"
  toJSONSchema_st :: "'s \<Rightarrow> 'w \<Rightarrow> (js_exn + json) \<times> 'w"

text \<open>
  The two methods once more, with the state written out. The state of the program is
  the engine, that is the captured \<^verbatim>\<open>_schema\<close>, together with the state of the
  library; a method returns its result and the state it leaves. Neither body assigns to
  \<^verbatim>\<open>_schema\<close> or to anything else of the adapter, so the engine comes back as it went in,
  and the library's state comes back as the one call to the library left it.
\<close>

definition validate_st ::
  "('s, 'v, 'w) zod_st \<Rightarrow> 'v \<Rightarrow> 's GhiiEngine \<times> 'w
     \<Rightarrow> (js_exn + 'v outcome) \<times> ('s GhiiEngine \<times> 'w)" where
  "validate_st z toValidate st =
     (case st of (engine, w) \<Rightarrow>
        (case safeParse_st z (the_schema engine) toValidate w of (answer, w') \<Rightarrow>
           (case answer of
              Inl e \<Rightarrow> (Inl e, (engine, w'))
            | Inr (SafeParseSuccess d) \<Rightarrow> (Inr (Success d), (engine, w'))
            | Inr (SafeParseError issues) \<Rightarrow>
                (case Array_map to_Issue issues of
                   Inl e \<Rightarrow> (Inl e, (engine, w'))
                 | Inr errors \<Rightarrow> (Inr (Failure errors), (engine, w'))))))"

definition toJsonSchema_st ::
  "('s, 'v, 'w) zod_st \<Rightarrow> bool option \<Rightarrow> 's GhiiEngine \<times> 'w
     \<Rightarrow> (js_exn + string) \<times> ('s GhiiEngine \<times> 'w)" where
  "toJsonSchema_st z arg st =
     (case st of (engine, w) \<Rightarrow>
        (let pretty = (case arg of None \<Rightarrow> False | Some b \<Rightarrow> b)
         in case toJSONSchema_st z (the_schema engine) w of (answer, w') \<Rightarrow>
              (case answer of
                 Inl e \<Rightarrow> (Inl e, (engine, w'))
               | Inr doc \<Rightarrow> (Inr (JSON_stringify doc (if pretty then 2 else 0)), (engine, w')))))"

text \<open>A library without state is a library whose entry points leave every state as it is.\<close>

definition stateless :: "('s, 'v) zod \<Rightarrow> ('s, 'v, 'w) zod_st" where
  "stateless z =
     \<lparr>safeParse_st = (\<lambda>s x w. (safeParse z s x, w)),
      toJSONSchema_st = (\<lambda>s w. (toJSONSchema z s, w))\<rparr>"

subsection \<open>A host calling the engine\<close>

text \<open>
  The host owns the engine object and calls its methods in some order. Each call starts
  in the state the call before it left.
\<close>

datatype 'v request = Validate 'v | ToJsonSchema "bool option"

datatype 'v response = Validated "js_exn + 'v outcome" | Schema_text "js_exn + string"

fun call_engine ::
  "('s, 'v, 'w) zod_st \<Rightarrow> 'v request \<Rightarrow> 's GhiiEngine \<times> 'w
     \<Rightarrow> 'v response \<times> ('s GhiiEngine \<times> 'w)" where
  "call_engine z (Validate x) st = (case validate_st z x st of (r, st') \<Rightarrow> (Validated r, st'))"
| "call_engine z (ToJsonSchema arg) st =
     (case toJsonSchema_st z arg st of (r, st') \<Rightarrow> (Schema_text r, st'))"

fun run_calls ::
  "('s, 'v, 'w) zod_st \<Rightarrow> 'v request list \<Rightarrow> 's GhiiEngine \<times> 'w
     \<Rightarrow> 'v response list \<times> ('s GhiiEngine \<times> 'w)" where
  "run_calls z [] st = ([], st)"
| "run_calls z (r # rs) st =
     (case call_engine z r st of
        (a, st') \<Rightarrow> (case run_calls z rs st' of (as, st'') \<Rightarrow> (a # as, st'')))"

section \<open>Reading JSON text back\<close>

text \<open>
  The specification compares the two outputs of \<^verbatim>\<open>toJsonSchema\<close> by parsing them as
  JSON. The reader below follows the JSON grammar: insignificant white space between
  tokens, the six structural characters, the three literal names, strings with their
  escapes, and numbers with their fraction and exponent. It works in two passes, tokens
  first.
\<close>

datatype token =
    TLBrace | TRBrace | TLBracket | TRBracket | TColon | TComma
  | TString string | TNumber js_number | TTrue | TFalse | TNull

text \<open>White space is space, horizontal tab, line feed and carriage return.\<close>

definition is_ws :: "char \<Rightarrow> bool" where
  "is_ws c = (c = CHR '' '' \<or> c = CHR 0x09 \<or> c = CHR 0x0A \<or> c = CHR 0x0D)"

definition is_digit :: "char \<Rightarrow> bool" where
  "is_digit c = (48 \<le> (of_char c :: nat) \<and> (of_char c :: nat) \<le> 57)"

definition digit_value :: "char \<Rightarrow> nat" where
  "digit_value c = of_char c - 48"

definition digits_to_nat :: "string \<Rightarrow> nat" where
  "digits_to_nat ds = foldl (\<lambda>acc c. 10 * acc + digit_value c) 0 ds"

text \<open>
  The four hexadecimal digits of a \<^verbatim>\<open>\u\<close> escape, in either case: the code unit they
  name, where the text has four such digits.
\<close>

definition hex_value :: "char \<Rightarrow> nat option" where
  "hex_value c =
     (let n = (of_char c :: nat)
      in if 48 \<le> n \<and> n \<le> 57 then Some (n - 48)
         else if 97 \<le> n \<and> n \<le> 102 then Some (n - 87)
         else if 65 \<le> n \<and> n \<le> 70 then Some (n - 55)
         else None)"

definition hex4 :: "string \<Rightarrow> nat option" where
  "hex4 cs =
     (if length cs < 4 then None
      else (case (hex_value (cs ! 0), hex_value (cs ! 1), hex_value (cs ! 2), hex_value (cs ! 3)) of
              (Some h3, Some h2, Some h1, Some h0) \<Rightarrow> Some (4096 * h3 + 256 * h2 + 16 * h1 + h0)
            | _ \<Rightarrow> None))"

text \<open>The bytes of a code point in UTF-8.\<close>

definition utf8 :: "nat \<Rightarrow> string" where
  "utf8 u =
     (if u < 0x80 then [char_of u]
      else if u < 0x800 then [char_of (0xC0 + u div 64), char_of (0x80 + u mod 64)]
      else if u < 0x10000
        then [char_of (0xE0 + u div 4096), char_of (0x80 + u div 64 mod 64),
              char_of (0x80 + u mod 64)]
      else [char_of (0xF0 + u div 262144), char_of (0x80 + u div 4096 mod 64),
            char_of (0x80 + u div 64 mod 64), char_of (0x80 + u mod 64)])"

text \<open>
  The text behind \<^verbatim>\<open>\u\<close>: the bytes it stands for and the number of characters that
  belong to it, four for a code unit that is a code point of its own, ten for a high
  surrogate with the escape of its low surrogate behind it. A surrogate without its
  partner is a string of JavaScript that has no bytes in UTF-8; it is the one text the
  grammar allows and this reader refuses.
\<close>

definition unicode_escape :: "string \<Rightarrow> (string \<times> nat) option" where
  "unicode_escape cs =
     (case hex4 cs of
        None \<Rightarrow> None
      | Some u \<Rightarrow>
          if u < 0xD800 \<or> 0xE000 \<le> u then Some (utf8 u, 4)
          else if u < 0xDC00 \<and> take 2 (drop 4 cs) = [backslash, CHR ''u''] then
            (case hex4 (drop 6 cs) of
               None \<Rightarrow> None
             | Some lo \<Rightarrow>
                 if 0xDC00 \<le> lo \<and> lo < 0xE000
                 then Some (utf8 (0x10000 + (u - 0xD800) * 1024 + (lo - 0xDC00)), 10)
                 else None)
          else None)"

definition push_char :: "char \<Rightarrow> (string \<times> string) option \<Rightarrow> (string \<times> string) option" where
  "push_char c r = (case r of None \<Rightarrow> None | Some (s, rest) \<Rightarrow> Some (c # s, rest))"

definition push_chars :: "string \<Rightarrow> (string \<times> string) option \<Rightarrow> (string \<times> string) option" where
  "push_chars cs r = (case r of None \<Rightarrow> None | Some (s, rest) \<Rightarrow> Some (cs @ s, rest))"

text \<open>The character after a backslash, for the two-character escapes.\<close>

definition simple_escape :: "char \<Rightarrow> char option" where
  "simple_escape e =
     (if e = dquote \<or> e = backslash \<or> e = CHR ''/'' then Some e
      else if e = CHR ''b'' then Some (CHR 0x08)
      else if e = CHR ''f'' then Some (CHR 0x0C)
      else if e = CHR ''n'' then Some (CHR 0x0A)
      else if e = CHR ''r'' then Some (CHR 0x0D)
      else if e = CHR ''t'' then Some (CHR 0x09)
      else None)"

text \<open>
  The rest of a string after its opening quote: the decoded characters up to the closing
  quote and the text behind it. A raw control character, an unknown escape or the end
  of the text inside the string is an error.
\<close>

fun scan_string :: "string \<Rightarrow> (string \<times> string) option"
and scan_escape :: "string \<Rightarrow> (string \<times> string) option" where
  "scan_string [] = None"
| "scan_string (c # cs) =
     (if c = dquote then Some ([], cs)
      else if c = backslash then scan_escape cs
      else if (of_char c :: nat) < 32 then None
      else push_char c (scan_string cs))"
| "scan_escape [] = None"
| "scan_escape (e # cs) =
     (if e = CHR ''u'' then
        (case unicode_escape cs of
           None \<Rightarrow> None
         | Some (bytes, n) \<Rightarrow> push_chars bytes (scan_string (drop n cs)))
      else
        (case simple_escape e of None \<Rightarrow> None | Some u \<Rightarrow> push_char u (scan_string cs)))"

text \<open>
  The value of a number that was read: the pair in lowest terms. Zero keeps the sign it
  is written with, as \<^verbatim>\<open>-0\<close> is read as minus zero.
\<close>

fun canonical :: "js_number \<Rightarrow> js_number" where
  "canonical (Finite negative s e) = (case lowest_terms s e of (s', e') \<Rightarrow> Finite negative s' e')"
| "canonical x = x"

text \<open>The fraction of a number, if there is one: a point and at least one digit.\<close>

definition scan_fraction :: "string \<Rightarrow> (string \<times> string) option" where
  "scan_fraction r =
     (if r \<noteq> [] \<and> hd r = CHR ''.'' then
        (if takeWhile is_digit (tl r) = [] then None
         else Some (takeWhile is_digit (tl r), dropWhile is_digit (tl r)))
      else Some ([], r))"

text \<open>
  The exponent of a number, if there is one: \<open>e\<close> or \<open>E\<close>, an optional sign and at
  least one digit.
\<close>

definition scan_exponent :: "string \<Rightarrow> (int \<times> string) option" where
  "scan_exponent r =
     (if r \<noteq> [] \<and> (hd r = CHR ''e'' \<or> hd r = CHR ''E'') then
        (let signed = (tl r \<noteq> [] \<and> (hd (tl r) = CHR ''+'' \<or> hd (tl r) = CHR ''-''));
             r' = (if signed then tl (tl r) else tl r);
             ds = takeWhile is_digit r'
         in if ds = [] then None
            else Some (if signed \<and> hd (tl r) = CHR ''-'' then - int (digits_to_nat ds)
                       else int (digits_to_nat ds),
                       dropWhile is_digit r'))
      else Some (0, r))"

text \<open>
  A number: an optional minus sign, digits without a leading zero, a fraction and an
  exponent. Its value is the digits before and behind the point, moved by the exponent
  and by the length of the fraction.
\<close>

definition scan_number :: "string \<Rightarrow> (js_number \<times> string) option" where
  "scan_number s =
     (let negative = (s \<noteq> [] \<and> hd s = CHR ''-'');
          s1 = (if negative then tl s else s);
          ds = takeWhile is_digit s1
      in if ds = [] then None
         else if hd ds = CHR ''0'' \<and> 1 < length ds then None
         else
           (case scan_fraction (dropWhile is_digit s1) of
              None \<Rightarrow> None
            | Some (fs, r) \<Rightarrow>
                (case scan_exponent r of
                   None \<Rightarrow> None
                 | Some (x, rest) \<Rightarrow>
                     Some (canonical (Finite negative (digits_to_nat (ds @ fs))
                                        (x - int (length fs))),
                           rest))))"

definition push_token :: "token \<Rightarrow> token list option \<Rightarrow> token list option" where
  "push_token t r = (case r of None \<Rightarrow> None | Some ts \<Rightarrow> Some (t # ts))"

text \<open>The tokens of a text, or \<open>None\<close> where the text has a character no token starts with.\<close>

function tokenize :: "string \<Rightarrow> token list option" where
  "tokenize [] = Some []"
| "tokenize (c # cs) =
     (if is_ws c then tokenize cs
      else if c = CHR ''{'' then push_token TLBrace (tokenize cs)
      else if c = CHR ''}'' then push_token TRBrace (tokenize cs)
      else if c = CHR ''['' then push_token TLBracket (tokenize cs)
      else if c = CHR '']'' then push_token TRBracket (tokenize cs)
      else if c = CHR '':'' then push_token TColon (tokenize cs)
      else if c = CHR '','' then push_token TComma (tokenize cs)
      else if c = dquote then
        (case scan_string cs of None \<Rightarrow> None | Some (s, rest) \<Rightarrow> push_token (TString s) (tokenize rest))
      else if c = CHR ''-'' \<or> is_digit c then
        (case scan_number (c # cs) of None \<Rightarrow> None | Some (n, rest) \<Rightarrow> push_token (TNumber n) (tokenize rest))
      else if c = CHR ''t'' \<and> take 3 cs = ''rue'' then push_token TTrue (tokenize (drop 3 cs))
      else if c = CHR ''f'' \<and> take 4 cs = ''alse'' then push_token TFalse (tokenize (drop 4 cs))
      else if c = CHR ''n'' \<and> take 3 cs = ''ull'' then push_token TNull (tokenize (drop 3 cs))
      else None)"
  by pat_completeness auto
termination
proof -
  have str_esc:
    "\<forall>s rest. scan_string cs = Some (s, rest) \<longrightarrow> length rest \<le> length cs"
    "\<forall>s rest. scan_escape cs' = Some (s, rest) \<longrightarrow> length rest \<le> length cs'" for cs cs'
  proof (induction cs and cs' rule: scan_string_scan_escape.induct)
    case 1
    then show ?case by simp
  next
    case (2 c cs)
    then show ?case by (auto simp: push_char_def le_Suc_eq split: if_splits option.splits)
  next
    case 3
    then show ?case by simp
  next
    case (4 e cs)
    show ?case
    proof (cases "e = CHR ''u''")
      case True
      show ?thesis
      proof (intro allI impI)
        fix s rest assume "scan_escape (e # cs) = Some (s, rest)"
        with True obtain bytes n s' where h: "unicode_escape cs = Some (bytes, n)"
          and p: "scan_string (drop n cs) = Some (s', rest)"
          by (auto simp: push_chars_def split: option.splits)
        from 4(1) [OF True h refl] p have "length rest \<le> length (drop n cs)" by blast
        then show "length rest \<le> length (e # cs)" by simp
      qed
    next
      case False
      show ?thesis
      proof (intro allI impI)
        fix s rest assume "scan_escape (e # cs) = Some (s, rest)"
        with False obtain u s' where h: "simple_escape e = Some u"
          and p: "scan_string cs = Some (s', rest)"
          by (auto simp: push_char_def split: option.splits)
        from 4(2) [OF False h] p have "length rest \<le> length cs" by blast
        then show "length rest \<le> length (e # cs)" by simp
      qed
    qed
  qed
  have frac: "length r' \<le> length r" if "scan_fraction r = Some (fs, r')" for r fs r'
  proof -
    have "length (dropWhile is_digit (tl r)) \<le> length r"
      by (rule order_trans [OF length_dropWhile_le]) simp
    with that show ?thesis by (auto simp: scan_fraction_def split: if_splits)
  qed
  have expo: "length r' \<le> length r" if "scan_exponent r = Some (x, r')" for r x r'
  proof -
    have "length (dropWhile is_digit (tl r)) \<le> length r"
      by (rule order_trans [OF length_dropWhile_le]) simp
    moreover have "length (dropWhile is_digit (tl (tl r))) \<le> length r"
      by (rule order_trans [OF length_dropWhile_le]) simp
    ultimately show ?thesis
      using that by (auto simp: scan_exponent_def Let_def split: if_splits)
  qed
  have num: "length rest < length s" if "scan_number s = Some (n, rest)" for s n rest
  proof -
    define s1 where "s1 = (if s \<noteq> [] \<and> hd s = CHR ''-'' then tl s else s)"
    from that obtain fs r x where ne: "takeWhile is_digit s1 \<noteq> []"
      and f: "scan_fraction (dropWhile is_digit s1) = Some (fs, r)"
      and e: "scan_exponent r = Some (x, rest)"
      by (auto simp: scan_number_def Let_def s1_def split: if_splits option.splits)
    have "length (takeWhile is_digit s1) + length (dropWhile is_digit s1) = length s1"
      by (metis length_append takeWhile_dropWhile_id)
    with ne have "length (dropWhile is_digit s1) < length s1"
      by (cases "takeWhile is_digit s1") auto
    moreover have "length s1 \<le> length s" by (simp add: s1_def)
    ultimately show ?thesis using frac [OF f] expo [OF e] by simp
  qed
  have str: "length rest < Suc (length cs)" if "scan_string cs = Some (s, rest)" for cs s rest
    using str_esc(1) that by fastforce
  show ?thesis
    by (relation "measure length") (auto dest: str num)
qed

declare tokenize.simps [simp del]

text \<open>
  The grammar over tokens: a value, the elements of an array after its opening bracket,
  and the members of an object after its opening brace. Each returns what it read and
  the tokens left over. The first argument bounds the number of nested calls; the number
  of tokens is always enough, as \<open>parse_tokens_of\<close> below shows for every document.
\<close>

fun parse_value :: "nat \<Rightarrow> token list \<Rightarrow> (json \<times> token list) option"
and parse_elements :: "nat \<Rightarrow> token list \<Rightarrow> (json list \<times> token list) option"
and parse_members :: "nat \<Rightarrow> token list \<Rightarrow> ((string \<times> json) list \<times> token list) option"
where
  "parse_value 0 ts = None"
| "parse_value (Suc n) [] = None"
| "parse_value (Suc n) (t # ts) =
     (case t of
        TNull \<Rightarrow> Some (JNull, ts)
      | TTrue \<Rightarrow> Some (JBool True, ts)
      | TFalse \<Rightarrow> Some (JBool False, ts)
      | TNumber k \<Rightarrow> Some (JNumber k, ts)
      | TString s \<Rightarrow> Some (JString s, ts)
      | TLBracket \<Rightarrow>
          (if ts \<noteq> [] \<and> hd ts = TRBracket then Some (JArray [], tl ts)
           else (case parse_elements n ts of
                   None \<Rightarrow> None
                 | Some (xs, rest) \<Rightarrow> Some (JArray xs, rest)))
      | TLBrace \<Rightarrow>
          (if ts \<noteq> [] \<and> hd ts = TRBrace then Some (JObject [], tl ts)
           else (case parse_members n ts of
                   None \<Rightarrow> None
                 | Some (ms, rest) \<Rightarrow> Some (JObject ms, rest)))
      | _ \<Rightarrow> None)"
| "parse_elements 0 ts = None"
| "parse_elements (Suc n) ts =
     (case parse_value n ts of
        None \<Rightarrow> None
      | Some (x, rest) \<Rightarrow>
          (if rest \<noteq> [] \<and> hd rest = TComma then
             (case parse_elements n (tl rest) of
                None \<Rightarrow> None
              | Some (xs, rest') \<Rightarrow> Some (x # xs, rest'))
           else if rest \<noteq> [] \<and> hd rest = TRBracket then Some ([x], tl rest)
           else None))"
| "parse_members 0 ts = None"
| "parse_members (Suc n) ts =
     (case ts of
        TString k # TColon # ts' \<Rightarrow>
          (case parse_value n ts' of
             None \<Rightarrow> None
           | Some (v, rest) \<Rightarrow>
               (if rest \<noteq> [] \<and> hd rest = TComma then
                  (case parse_members n (tl rest) of
                     None \<Rightarrow> None
                   | Some (ms, rest') \<Rightarrow> Some ((k, v) # ms, rest'))
                else if rest \<noteq> [] \<and> hd rest = TRBrace then Some ([(k, v)], tl rest)
                else None))
      | _ \<Rightarrow> None)"

text \<open>\<^verbatim>\<open>JSON.parse\<close>: the whole text must be one value.\<close>

definition JSON_parse :: "string \<Rightarrow> json option" where
  "JSON_parse text =
     (case tokenize text of
        None \<Rightarrow> None
      | Some ts \<Rightarrow>
          (case parse_value (Suc (length ts)) ts of
             None \<Rightarrow> None
           | Some (v, rest) \<Rightarrow> if rest = [] then Some v else None))"

text \<open>
  The number that the text of a finite number is read as: the number itself in lowest
  terms, and zero for minus zero, which is printed without its sign.
\<close>

fun printed :: "js_number \<Rightarrow> js_number" where
  "printed (Finite negative s e) =
     (case lowest_terms s e of
        (s', e') \<Rightarrow> if s' = 0 then Finite False 0 0 else Finite negative s' e')"
| "printed x = x"

text \<open>
  The document as a reader of its text gets it: every finite number as it is printed,
  and \<open>null\<close> in place of a number that is not finite.
\<close>

fun read_back :: "json \<Rightarrow> json" where
  "read_back (JNumber x) = (if is_finite x then JNumber (printed x) else JNull)"
| "read_back (JArray xs) = JArray (map read_back xs)"
| "read_back (JObject ms) = JObject (map (\<lambda>m. (fst m, read_back (snd m))) ms)"
| "read_back v = v"

section \<open>Compact and indented text in the words of the specification\<close>

text \<open>The tokens of a document, and the text of one token.\<close>

fun tokens_of :: "json \<Rightarrow> token list" where
  "tokens_of JNull = [TNull]"
| "tokens_of (JBool b) = [if b then TTrue else TFalse]"
| "tokens_of (JNumber x) = [if is_finite x then TNumber (printed x) else TNull]"
| "tokens_of (JString s) = [TString s]"
| "tokens_of (JArray xs) = TLBracket # join_lists (map tokens_of xs) [TComma] @ [TRBracket]"
| "tokens_of (JObject ms) =
     TLBrace # join_lists (map (\<lambda>m. TString (fst m) # TColon # tokens_of (snd m)) ms) [TComma]
       @ [TRBrace]"

fun token_text :: "token \<Rightarrow> string" where
  "token_text TLBrace = ''{''"
| "token_text TRBrace = ''}''"
| "token_text TLBracket = ''[''"
| "token_text TRBracket = '']''"
| "token_text TColon = '':''"
| "token_text TComma = '',''"
| "token_text (TString s) = QuoteJSONString s"
| "token_text (TNumber x) = Number_text x"
| "token_text TTrue = ''true''"
| "token_text TFalse = ''false''"
| "token_text TNull = ''null''"

text \<open>Compact text has no added white space: it is the tokens, one after the other.\<close>

definition spec_compact :: "json \<Rightarrow> string" where
  "spec_compact v = concat (map token_text (tokens_of v))"

text \<open>
  Indented text puts every element and member on a line of its own behind two spaces
  for each level of nesting, a space after the colon, and the closing bracket on a line
  behind the indentation of the level that opened it; empty arrays and objects and
  everything else stay as in the compact text.
\<close>

definition line_start :: "nat \<Rightarrow> string" where
  "line_start depth = newline # replicate (2 * depth) (CHR '' '')"

fun spec_pretty :: "nat \<Rightarrow> json \<Rightarrow> string" where
  "spec_pretty depth (JArray xs) =
     (if xs = [] then ''[]''
      else ''['' @ line_start (Suc depth)
           @ join_lists (map (spec_pretty (Suc depth)) xs) ('','' @ line_start (Suc depth))
           @ line_start depth @ '']'')"
| "spec_pretty depth (JObject ms) =
     (if ms = [] then ''{}''
      else ''{'' @ line_start (Suc depth)
           @ join_lists (map (\<lambda>m. QuoteJSONString (fst m) @ '': '' @ spec_pretty (Suc depth) (snd m)) ms)
               ('','' @ line_start (Suc depth))
           @ line_start depth @ ''}'')"
| "spec_pretty depth v = spec_compact v"

section \<open>A scripted library for the concrete cases\<close>

text \<open>
  The theorems below hold for every library. Their concrete instances run against a
  library scripted with what the validation library answers in four situations, three of
  them taken from the repository's tests of \<^verbatim>\<open>directSchema\<close>.
\<close>

text \<open>Candidate values of the concrete cases: JavaScript values, objects keyed by property keys.\<close>

datatype js_value =
    VUndefined
  | VNull
  | VBool bool
  | VNumber int
  | VString string
  | VArray "js_value list"
  | VObject "(PropertyKey \<times> js_value) list"

text \<open>
  What stands for a schema: \<^verbatim>\<open>directSchema\<close> of the tests, that is
  \<^verbatim>\<open>z.object({id: z.number().int().positive(), title: z.string().min(1).max(100),
  tags: z.array(z.string()).optional()})\<close>; the schema \<^verbatim>\<open>z.record(z.string(), z.number())\<close>;
  and the value \<^verbatim>\<open>null\<close>, which is not a schema.
\<close>

datatype demo_schema = Direct_schema | Record_schema | Js_null

definition valid_data :: js_value where
  "valid_data =
     VObject [(PString ''id'', VNumber 1), (PString ''title'', VString ''Test Title''),
              (PString ''tags'', VArray [VString ''tag1'', VString ''tag2''])]"

definition invalid_data :: js_value where
  "invalid_data =
     VObject [(PString ''id'', VNumber 0), (PString ''title'', VString []),
              (PString ''tags'', VArray [VNumber 123, VString ''tag2''])]"

text \<open>An object whose only key is the symbol \<^verbatim>\<open>Symbol('k')\<close>.\<close>

definition symbol_keyed :: js_value where
  "symbol_keyed = VObject [(PSymbol ''k'', VNumber 1)]"

definition id_issue :: "js_value ZodIssue" where
  "id_issue =
     \<lparr>issue_code = ''too_small'', issue_input = None, issue_path = [PString ''id''],
      issue_message = ''Too small: expected number to be >0'',
      issue_rest = [(''origin'', VString ''number''), (''minimum'', VNumber 0),
                    (''inclusive'', VBool False)]\<rparr>"

definition title_issue :: "js_value ZodIssue" where
  "title_issue =
     \<lparr>issue_code = ''too_small'', issue_input = None, issue_path = [PString ''title''],
      issue_message = ''Too small: expected string to have >=1 characters'',
      issue_rest = [(''origin'', VString ''string''), (''minimum'', VNumber 1),
                    (''inclusive'', VBool True)]\<rparr>"

definition tags_issue :: "js_value ZodIssue" where
  "tags_issue =
     \<lparr>issue_code = ''invalid_type'', issue_input = None,
      issue_path = [PString ''tags'', PNumber 0],
      issue_message = ''Invalid input: expected string, received number'',
      issue_rest = [(''expected'', VString ''string'')]\<rparr>"

definition root_issue :: "js_value ZodIssue" where
  "root_issue =
     \<lparr>issue_code = ''invalid_type'', issue_input = None, issue_path = [],
      issue_message = ''Invalid input: expected object, received string'',
      issue_rest = [(''expected'', VString ''object'')]\<rparr>"

definition key_issue :: "js_value ZodIssue" where
  "key_issue =
     \<lparr>issue_code = ''invalid_key'', issue_input = None, issue_path = [PSymbol ''k''],
      issue_message = ''Invalid key in record'',
      issue_rest = [(''origin'', VString ''record'')]\<rparr>"

definition not_a_schema :: js_exn where
  "not_a_schema = TypeError ''Cannot read properties of null''"

text \<open>
  The script: \<^verbatim>\<open>null\<close> makes the library throw; \<^verbatim>\<open>directSchema\<close> accepts the valid
  object of the tests unchanged, reports three issues on the invalid one and a
  root-level issue on a string; the record schema reports the symbol key of
  \<open>symbol_keyed\<close> under the path that holds that symbol.
\<close>

definition demo_safeParse :: "demo_schema \<Rightarrow> js_value \<Rightarrow> js_exn + js_value SafeParseResult" where
  "demo_safeParse s x =
     (if s = Js_null then Inl not_a_schema
      else if s = Direct_schema \<and> x = valid_data then Inr (SafeParseSuccess valid_data)
      else if s = Direct_schema \<and> x = invalid_data
        then Inr (SafeParseError [id_issue, title_issue, tags_issue])
      else if s = Record_schema \<and> x = symbol_keyed then Inr (SafeParseError [key_issue])
      else Inr (SafeParseError [root_issue]))"

text \<open>The JSON Schema document of \<^verbatim>\<open>directSchema\<close>, as the tests record it.\<close>

definition demo_document :: json where
  "demo_document =
     JObject
      [(''$schema'', JString ''https://json-schema.org/draft/2020-12/schema''),
       (''type'', JString ''object''),
       (''properties'',
          JObject
           [(''id'', JObject [(''type'', JString ''integer''),
                              (''exclusiveMinimum'', JNumber (Finite False 0 0)),
                              (''maximum'', JNumber (Finite False 9007199254740991 0))]),
            (''title'', JObject [(''type'', JString ''string''),
                                 (''minLength'', JNumber (Finite False 1 0)),
                                 (''maxLength'', JNumber (Finite False 1 2))]),
            (''tags'', JObject [(''type'', JString ''array''),
                                (''items'', JObject [(''type'', JString ''string'')])])]),
       (''required'', JArray [JString ''id'', JString ''title'']),
       (''additionalProperties'', JBool False)]"

definition demo_zod :: "(demo_schema, js_value) zod" where
  "demo_zod =
     \<lparr>safeParse = demo_safeParse,
      parse = (\<lambda>s x. case demo_safeParse s x of
                 Inl e \<Rightarrow> Inl e
               | Inr (SafeParseSuccess d) \<Rightarrow> Inr d
               | Inr (SafeParseError issues) \<Rightarrow> Inl (Thrown ''ZodError'')),
      toJSONSchema = (\<lambda>s. if s = Js_null then Inl not_a_schema else Inr demo_document)\<rparr>"

subsection \<open>A library with state\<close>

text \<open>
  One schema more, \<^verbatim>\<open>z.any().refine(() => runs++ % 2 === 0)\<close> over a counter \<^verbatim>\<open>runs\<close>
  of the host that starts at zero: the refinement passes at every other check. The state
  of the library is that counter and the description, if any, that the host has
  registered for the schema with \<^verbatim>\<open>z.globalRegistry.add(schema, {description})\<close>, which
  the converter copies into the document.
\<close>

datatype stateful_schema = Alternating_schema

record library_state =
  refinement_runs :: nat
  registered_description :: "string option"

definition custom_issue :: "js_value ZodIssue" where
  "custom_issue =
     \<lparr>issue_code = ''custom'', issue_input = None, issue_path = [],
      issue_message = ''Invalid input'', issue_rest = []\<rparr>"

definition alternating_zod :: "(stateful_schema, js_value, library_state) zod_st" where
  "alternating_zod =
     \<lparr>safeParse_st =
        (\<lambda>s x w. (if even (refinement_runs w) then Inr (SafeParseSuccess x)
                   else Inr (SafeParseError [custom_issue]),
                   w\<lparr>refinement_runs := Suc (refinement_runs w)\<rparr>)),
      toJSONSchema_st =
        (\<lambda>s w. (Inr (JObject
                   ((''$schema'', JString ''https://json-schema.org/draft/2020-12/schema'')
                    # (case registered_description w of
                         None \<Rightarrow> []
                       | Some d \<Rightarrow> [(''description'', JString d)]))),
                 w))\<rparr>"

text \<open>The program right after \<^verbatim>\<open>zodEngine\<close> returned the engine of that schema.\<close>

definition fresh_state :: "stateful_schema GhiiEngine \<times> library_state" where
  "fresh_state =
     (\<lparr>the_schema = Alternating_schema\<rparr>,
      \<lparr>refinement_runs = 0, registered_description = None\<rparr>)"

section \<open>The dotted path in the words of the specification\<close>

text \<open>
  The specification calls an issue's path the concatenation of the library's path
  segments joined with dots, numeric indices included as string segments. That reads as
  follows; it says nothing about a symbol, which is written as JavaScript prints one.
\<close>

fun segment_text :: "PropertyKey \<Rightarrow> string" where
  "segment_text (PString s) = s"
| "segment_text (PNumber n) = Number_toString n"
| "segment_text (PSymbol d) = ''Symbol('' @ d @ '')''"

definition spec_dotted_path :: "PropertyKey list \<Rightarrow> string" where
  "spec_dotted_path ks = join_lists (map segment_text ks) ''.''"

definition is_symbol :: "PropertyKey \<Rightarrow> bool" where
  "is_symbol k = (case k of PSymbol d \<Rightarrow> True | _ \<Rightarrow> False)"

section \<open>Auxiliary notions of the proofs\<close>

text \<open>
  Text that may follow the digits of a number without running into them: nothing, or a
  character that is neither a digit nor the start of a fraction or exponent.
\<close>

definition number_end :: "string \<Rightarrow> bool" where
  "number_end rest =
     (rest = [] \<or> (\<not> is_digit (hd rest) \<and> hd rest \<noteq> CHR ''.'' \<and> hd rest \<noteq> CHR ''e''
                    \<and> hd rest \<noteq> CHR ''E''))"

text \<open>Tokens put in front of what is read from the rest of a text.\<close>

definition emit :: "token list \<Rightarrow> token list option \<Rightarrow> token list option" where
  "emit ts r = (case r of None \<Rightarrow> None | Some us \<Rightarrow> Some (ts @ us))"

section \<open>Properties of the built-ins\<close>


lemma Array_map_Inr:
  "list_all2 (\<lambda>x y. f x = Inr y) xs ys \<Longrightarrow> Array_map f xs = Inr ys"
  by (induction xs ys rule: list_all2_induct) auto

lemma Array_map_Inl:
  "Array_map f xs = Inl e \<Longrightarrow> \<exists>x \<in> set xs. f x = Inl e"
  by (induction xs) (auto split: sum.splits)


lemma ToString_no_symbol: "\<not> is_symbol k \<Longrightarrow> ToString k = Inr (segment_text k)"
  by (cases k) (auto simp: is_symbol_def)


lemma Array_join_no_symbol:
  "\<forall>k \<in> set ks. \<not> is_symbol k \<Longrightarrow>
     Array_join ks sep = Inr (join_lists (map segment_text ks) sep)"
  by (induction ks sep rule: Array_join.induct) (auto simp: ToString_no_symbol)

text \<open>One symbol anywhere in the array makes \<^verbatim>\<open>join\<close> throw.\<close>

lemma Array_join_symbol:
  "\<exists>k \<in> set ks. is_symbol k \<Longrightarrow>
     Array_join ks sep = Inl (TypeError ''Cannot convert a Symbol value to a string'')"
proof (induction ks sep rule: Array_join.induct)
  case (3 k v va sep)
  then show ?case
    by (cases k) (auto simp: is_symbol_def split: sum.splits PropertyKey.splits)
qed (auto simp: is_symbol_def split: PropertyKey.splits)

section \<open>Properties of the JSON text\<close>

subsection \<open>Numbers\<close>

lemma digit_char_props:
  assumes "d < 10"
  shows "is_digit (digit_char d)" "digit_value (digit_char d) = d"
    "digit_char d \<noteq> CHR ''-''" "(digit_char d = CHR ''0'') = (d = 0)"
proof -
  from assms consider "d = 0" | "d = 1" | "d = 2" | "d = 3" | "d = 4" | "d = 5" | "d = 6"
    | "d = 7" | "d = 8" | "d = 9"
    by atomize_elim arith
  then have "is_digit (digit_char d) \<and> digit_value (digit_char d) = d
    \<and> digit_char d \<noteq> CHR ''-'' \<and> ((digit_char d = CHR ''0'') = (d = 0))"
    by cases (simp_all add: digit_char_def is_digit_def digit_value_def)
  then show "is_digit (digit_char d)" "digit_value (digit_char d) = d"
    "digit_char d \<noteq> CHR ''-''" "(digit_char d = CHR ''0'') = (d = 0)"
    by simp_all
qed

lemma nat_digits_all_digits: "\<forall>c \<in> set (nat_digits n). is_digit c"
proof (induction n rule: nat_digits.induct)
  case (1 n)
  show ?case
  proof (cases "n < 10")
    case True
    then show ?thesis by (subst nat_digits.simps) (simp add: digit_char_props)
  next
    case False
    with 1 show ?thesis by (subst nat_digits.simps) (simp add: digit_char_props)
  qed
qed

lemma nat_digits_not_empty: "nat_digits n \<noteq> []"
  by (subst nat_digits.simps) simp

lemma nat_digits_value: "digits_to_nat (nat_digits n) = n"
proof (induction n rule: nat_digits.induct)
  case (1 n)
  show ?case
  proof (cases "n < 10")
    case True
    then show ?thesis
      by (subst nat_digits.simps) (simp add: digits_to_nat_def digit_char_props)
  next
    case False
    with 1 have "digits_to_nat (nat_digits (n div 10)) = n div 10" by simp
    with False show ?thesis
      by (subst nat_digits.simps) (simp add: digits_to_nat_def digit_char_props)
  qed
qed

lemma nat_digits_hd: "hd (nat_digits n) = CHR ''0'' \<Longrightarrow> n = 0"
proof (induction n rule: nat_digits.induct)
  case (1 n)
  show ?case
  proof (cases "n < 10")
    case True
    with 1(2) show ?thesis
      by (subst (asm) nat_digits.simps) (simp add: digit_char_props)
  next
    case False
    with 1(2) have "hd (nat_digits (n div 10)) = CHR ''0''"
      by (subst (asm) nat_digits.simps) (simp add: nat_digits_not_empty)
    with 1(1) False have "n div 10 = 0" by simp
    with False show ?thesis by simp
  qed
qed

lemma nat_digits_zero: "nat_digits 0 = ''0''"
  by (subst nat_digits.simps) (simp add: digit_char_def)

lemma takeWhile_digits:
  assumes "\<forall>c \<in> set ds. is_digit c" and "rest = [] \<or> \<not> is_digit (hd rest)"
  shows "takeWhile is_digit (ds @ rest) = ds" "dropWhile is_digit (ds @ rest) = rest"
  using assms by (cases rest; simp add: takeWhile_append2 dropWhile_append2)+

lemma digits_to_nat_append:
  "digits_to_nat (ds @ es) = digits_to_nat ds * 10 ^ length es + digits_to_nat es"
proof (induction es rule: rev_induct)
  case Nil
  then show ?case by (simp add: digits_to_nat_def)
next
  case (snoc c es)
  have "digits_to_nat (ds @ es @ [c]) = 10 * digits_to_nat (ds @ es) + digit_value c"
    by (simp add: digits_to_nat_def)
  also have "\<dots> = 10 * (digits_to_nat ds * 10 ^ length es + digits_to_nat es) + digit_value c"
    using snoc by simp
  also have "\<dots> = digits_to_nat ds * 10 ^ length (es @ [c]) + digits_to_nat (es @ [c])"
    by (simp add: digits_to_nat_def algebra_simps)
  finally show ?case by simp
qed

lemma digits_to_nat_zeros: "digits_to_nat (replicate j (CHR ''0'')) = 0"
proof (induction j)
  case 0
  then show ?case by (simp add: digits_to_nat_def)
next
  case (Suc j)
  have "replicate (Suc j) (CHR ''0'') = replicate j (CHR ''0'') @ ''0''"
    by (simp add: replicate_append_same)
  then have "digits_to_nat (replicate (Suc j) (CHR ''0''))
               = digits_to_nat (replicate j (CHR ''0'')) * 10 + digits_to_nat ''0''"
    by (simp only: digits_to_nat_append) simp
  with Suc show ?case by (simp add: digits_to_nat_def digit_value_def)
qed

lemma is_digit_zero: "is_digit (CHR ''0'')"
  by (simp add: is_digit_def)

lemma not_digit_chars:
  "\<not> is_digit (CHR ''.'')" "\<not> is_digit (CHR ''e'')" "\<not> is_digit (CHR ''E'')"
  "\<not> is_digit (CHR ''+'')" "\<not> is_digit (CHR ''-'')"
  by (simp_all add: is_digit_def)

lemma lowest_terms_shift:
  assumes "0 < s" and "s mod 10 \<noteq> 0"
  shows "lowest_terms (s * 10 ^ j) (e - int j) = (s, e)"
proof (induction j)
  case 0
  with assms show ?case by (subst lowest_terms.simps) simp
next
  case (Suc j)
  have "lowest_terms (s * 10 ^ Suc j) (e - int (Suc j)) = lowest_terms (s * 10 ^ j) (e - int j)"
    using assms(1) by (subst lowest_terms.simps) (simp add: algebra_simps)
  with Suc show ?case by simp
qed

lemma lowest_terms_result:
  "lowest_terms s e = (s', e') \<Longrightarrow> s' = 0 \<and> e' = 0 \<or> 0 < s' \<and> s' mod 10 \<noteq> 0"
proof (induction s e rule: lowest_terms.induct)
  case (1 s e)
  then show ?case
    by (subst (asm) (2) lowest_terms.simps) (auto split: if_splits)
qed

lemma lowest_terms_idem:
  "lowest_terms s e = (s', e') \<Longrightarrow> lowest_terms s' e' = (s', e')"
  using lowest_terms_result [of s e s' e']
  by (subst lowest_terms.simps) auto

lemma printed_idem: "printed (printed x) = printed x"
proof (cases x)
  case (Finite negative s e)
  obtain s' e' where l: "lowest_terms s e = (s', e')" by (cases "lowest_terms s e")
  from lowest_terms_idem [OF l] l Finite have "lowest_terms 0 0 = (0, 0)"
    by (subst lowest_terms.simps) simp
  with lowest_terms_idem [OF l] l Finite show ?thesis by auto
qed simp_all

lemma Number_text_printed: "Number_text (printed x) = Number_text x"
proof (cases x)
  case (Finite negative s e)
  obtain s' e' where l: "lowest_terms s e = (s', e')" by (cases "lowest_terms s e")
  have "lowest_terms 0 0 = (0, 0)"
    by (subst lowest_terms.simps) simp
  with lowest_terms_idem [OF l] l Finite show ?thesis by auto
qed simp_all


lemma scan_fraction_none:
  "r = [] \<or> hd r \<noteq> CHR ''.'' \<Longrightarrow> scan_fraction r = Some ([], r)"
  by (auto simp: scan_fraction_def)

lemma scan_fraction_digits:
  assumes "\<forall>c \<in> set fs. is_digit c" and "fs \<noteq> []" and "r = [] \<or> \<not> is_digit (hd r)"
  shows "scan_fraction (CHR ''.'' # fs @ r) = Some (fs, r)"
  using assms(2) by (simp add: scan_fraction_def takeWhile_digits [OF assms(1,3)])

lemma scan_exponent_none:
  "r = [] \<or> (hd r \<noteq> CHR ''e'' \<and> hd r \<noteq> CHR ''E'') \<Longrightarrow> scan_exponent r = Some (0, r)"
  by (auto simp: scan_exponent_def)

lemma scan_exponent_text:
  assumes "r = [] \<or> \<not> is_digit (hd r)"
  shows "scan_exponent (CHR ''e'' # exponent_text x @ r) = Some (x, r)"
proof -
  define ds where "ds = nat_digits (nat \<bar>x\<bar>)"
  have d: "\<forall>c \<in> set ds. is_digit c" by (simp add: ds_def nat_digits_all_digits)
  have ne: "ds \<noteq> []" by (simp add: ds_def nat_digits_not_empty)
  have val: "int (digits_to_nat ds) = \<bar>x\<bar>" by (simp add: ds_def nat_digits_value)
  have shape: "exponent_text x = (if x < 0 then CHR ''-'' else CHR ''+'') # ds"
    by (simp add: exponent_text_def ds_def)
  show ?thesis
    unfolding shape using ne val
    by (simp add: scan_exponent_def Let_def takeWhile_digits [OF d assms])
qed

lemma scan_number_parts:
  assumes ip: "\<forall>c \<in> set ip. is_digit c" "ip \<noteq> []" "\<not> (hd ip = CHR ''0'' \<and> 1 < length ip)"
    and r1: "r1 = [] \<or> \<not> is_digit (hd r1)"
    and fr: "scan_fraction r1 = Some (fs, r2)"
    and ex: "scan_exponent r2 = Some (x, rest)"
  shows "scan_number (ip @ r1)
           = Some (canonical (Finite False (digits_to_nat (ip @ fs)) (x - int (length fs))), rest)"
    and "scan_number (CHR ''-'' # ip @ r1)
           = Some (canonical (Finite True (digits_to_nat (ip @ fs)) (x - int (length fs))), rest)"
proof -
  have nm: "hd (ip @ r1) \<noteq> CHR ''-''"
    using ip(1,2) by (cases ip) (auto simp: is_digit_def)
  show "scan_number (ip @ r1)
           = Some (canonical (Finite False (digits_to_nat (ip @ fs)) (x - int (length fs))), rest)"
    using nm ip(2,3) fr ex
    by (simp add: scan_number_def Let_def takeWhile_digits [OF ip(1) r1])
  show "scan_number (CHR ''-'' # ip @ r1)
           = Some (canonical (Finite True (digits_to_nat (ip @ fs)) (x - int (length fs))), rest)"
    using ip(2,3) fr ex
    by (simp add: scan_number_def Let_def takeWhile_digits [OF ip(1) r1])
qed

lemma canonical_lowest:
  assumes "lowest_terms m a = (s, e)" and "0 < s"
  shows "canonical (Finite negative m a) = Finite negative s e"
  using assms by simp

lemma number_end_parts:
  assumes "number_end rest"
  shows "rest = [] \<or> \<not> is_digit (hd rest)" "rest = [] \<or> hd rest \<noteq> CHR ''.''"
    "rest = [] \<or> (hd rest \<noteq> CHR ''e'' \<and> hd rest \<noteq> CHR ''E'')"
  using assms by (auto simp: number_end_def)

lemma scan_decimal_text:
  assumes s: "0 < s" "s mod 10 \<noteq> 0" and rest: "number_end rest"
  shows "scan_number (decimal_text s e @ rest) = Some (Finite False s e, rest)
       \<and> scan_number (CHR ''-'' # decimal_text s e @ rest) = Some (Finite True s e, rest)"
proof -
  define ds where "ds = nat_digits s"
  define k where "k = int (length ds)"
  define n where "n = k + e"
  have dig: "\<forall>c \<in> set ds. is_digit c" by (simp add: ds_def nat_digits_all_digits)
  have ne: "ds \<noteq> []" by (simp add: ds_def nat_digits_not_empty)
  have hd0: "hd ds \<noteq> CHR ''0''" using nat_digits_hd [of s] s(1) by (auto simp: ds_def)
  have val: "digits_to_nat ds = s" by (simp add: ds_def nat_digits_value)
  have kpos: "0 < k" using ne by (simp add: k_def)
  note re = number_end_parts [OF rest]
  have unfold: "decimal_text s e =
      (if k \<le> n \<and> n \<le> 21 then ds @ replicate (nat (n - k)) (CHR ''0'')
       else if 0 < n \<and> n \<le> 21 then take (nat n) ds @ ''.'' @ drop (nat n) ds
       else if - 6 < n \<and> n \<le> 0 then ''0.'' @ replicate (nat (- n)) (CHR ''0'') @ ds
       else if k = 1 then ds @ ''e'' @ exponent_text (n - 1)
       else hd ds # ''.'' @ tl ds @ ''e'' @ exponent_text (n - 1))"
    unfolding decimal_text_def Let_def ds_def k_def n_def by (rule refl)
  have same: "lowest_terms s e = (s, e)"
    using lowest_terms_shift [OF s, of 0 e] by simp
  consider (ints) "k \<le> n" "n \<le> 21"
    | (point) "\<not> (k \<le> n \<and> n \<le> 21)" "0 < n" "n \<le> 21"
    | (small) "\<not> (k \<le> n \<and> n \<le> 21)" "\<not> (0 < n \<and> n \<le> 21)" "- 6 < n" "n \<le> 0"
    | (sci1) "\<not> (k \<le> n \<and> n \<le> 21)" "\<not> (0 < n \<and> n \<le> 21)" "\<not> (- 6 < n \<and> n \<le> 0)" "k = 1"
    | (sci) "\<not> (k \<le> n \<and> n \<le> 21)" "\<not> (0 < n \<and> n \<le> 21)" "\<not> (- 6 < n \<and> n \<le> 0)" "k \<noteq> 1"
    by blast
  then show ?thesis
  proof cases
    case ints
    define j where "j = nat (n - k)"
    have shape: "decimal_text s e = ds @ replicate j (CHR ''0'')"
      using ints by (simp add: unfold j_def)
    have ej: "e = int j" using ints by (simp add: j_def n_def)
    let ?ip = "ds @ replicate j (CHR ''0'')"
    have ip: "\<forall>c \<in> set ?ip. is_digit c" "?ip \<noteq> []" "\<not> (hd ?ip = CHR ''0'' \<and> 1 < length ?ip)"
      using dig ne hd0 by (auto simp: is_digit_zero)
    have v: "digits_to_nat (?ip @ []) = s * 10 ^ j"
      by (simp add: digits_to_nat_append digits_to_nat_zeros val)
    have lt: "lowest_terms (s * 10 ^ j) (0 - int (length ([]::string))) = (s, e)"
      using lowest_terms_shift [OF s, of j e] ej by simp
    from scan_number_parts [OF ip re(1) scan_fraction_none [OF re(2)] scan_exponent_none [OF re(3)]]
    show ?thesis
      unfolding shape v using canonical_lowest [OF lt s(1)] by simp
  next
    case point
    have nk: "n < k" using point by linarith
    define i where "i = nat n"
    have i: "0 < i" "i < length ds" using point nk by (simp_all add: i_def k_def)
    have shape: "decimal_text s e = take i ds @ CHR ''.'' # drop i ds"
      using point by (simp add: unfold i_def)
    let ?ip = "take i ds"
    have ip: "\<forall>c \<in> set ?ip. is_digit c" "?ip \<noteq> []" "\<not> (hd ?ip = CHR ''0'' \<and> 1 < length ?ip)"
      using dig ne hd0 i by (auto dest: in_set_takeD simp: hd_take)
    have fs: "\<forall>c \<in> set (drop i ds). is_digit c" "drop i ds \<noteq> []"
      using dig i by (auto dest: in_set_dropD)
    have r1: "CHR ''.'' # drop i ds @ rest = [] \<or> \<not> is_digit (hd (CHR ''.'' # drop i ds @ rest))"
      by (simp add: not_digit_chars)
    have v: "digits_to_nat (?ip @ drop i ds) = s" by (simp add: val)
    have "int (length (drop i ds)) = k - n" using i point by (simp add: k_def i_def)
    then have lt: "lowest_terms s (0 - int (length (drop i ds))) = (s, e)"
      using same by (simp add: n_def)
    from scan_number_parts [OF ip r1 scan_fraction_digits [OF fs re(1)] scan_exponent_none [OF re(3)]]
    show ?thesis
      unfolding shape v using canonical_lowest [OF lt s(1)] by simp
  next
    case small
    define j where "j = nat (- n)"
    have shape: "decimal_text s e = ''0'' @ CHR ''.'' # (replicate j (CHR ''0'') @ ds)"
      using small by (simp add: unfold j_def)
    let ?ip = "''0''"
    let ?fs = "replicate j (CHR ''0'') @ ds"
    have ip: "\<forall>c \<in> set ?ip. is_digit c" "?ip \<noteq> []" "\<not> (hd ?ip = CHR ''0'' \<and> 1 < length ?ip)"
      by (simp_all add: is_digit_zero)
    have fs: "\<forall>c \<in> set ?fs. is_digit c" "?fs \<noteq> []"
      using dig ne by (auto simp: is_digit_zero)
    have r1: "CHR ''.'' # ?fs @ rest = [] \<or> \<not> is_digit (hd (CHR ''.'' # ?fs @ rest))"
      by (simp add: not_digit_chars)
    have "digits_to_nat (''0'' @ replicate j (CHR ''0'')) = 0"
      using digits_to_nat_zeros [of "Suc j"] by simp
    then have v: "digits_to_nat (?ip @ ?fs) = s"
      using digits_to_nat_append [of "''0'' @ replicate j (CHR ''0'')" ds] by (simp add: val)
    have "int (length ?fs) = k - n" using small by (simp add: k_def j_def)
    then have lt: "lowest_terms s (0 - int (length ?fs)) = (s, e)"
      using same by (simp add: n_def)
    from scan_number_parts [OF ip r1 scan_fraction_digits [OF fs re(1)] scan_exponent_none [OF re(3)]]
    show ?thesis
      unfolding shape v using canonical_lowest [OF lt s(1)] by simp
  next
    case sci1
    have shape: "decimal_text s e = ds @ CHR ''e'' # exponent_text (n - 1)"
      using sci1 by (auto simp: unfold)
    have ip: "\<forall>c \<in> set ds. is_digit c" "ds \<noteq> []" "\<not> (hd ds = CHR ''0'' \<and> 1 < length ds)"
      using dig ne hd0 by auto
    let ?r1 = "CHR ''e'' # exponent_text (n - 1) @ rest"
    have r1: "?r1 = [] \<or> \<not> is_digit (hd ?r1)" by (simp add: not_digit_chars)
    have fr: "scan_fraction ?r1 = Some ([], ?r1)" by (rule scan_fraction_none) simp
    have v: "digits_to_nat (ds @ []) = s" by (simp add: val)
    have lt: "lowest_terms s (n - 1 - int (length ([]::string))) = (s, e)"
      using same sci1 by (simp add: n_def)
    from scan_number_parts [OF ip r1 fr scan_exponent_text [OF re(1)]]
    show ?thesis
      unfolding shape v using canonical_lowest [OF lt s(1)] by simp
  next
    case sci
    have k2: "1 < k" using sci kpos by linarith
    then have tl: "tl ds \<noteq> []" using ne by (cases ds) (auto simp: k_def)
    have shape: "decimal_text s e = [hd ds] @ CHR ''.'' # tl ds @ CHR ''e'' # exponent_text (n - 1)"
      using sci by (auto simp: unfold)
    let ?ip = "[hd ds]"
    have ip: "\<forall>c \<in> set ?ip. is_digit c" "?ip \<noteq> []" "\<not> (hd ?ip = CHR ''0'' \<and> 1 < length ?ip)"
      using dig ne by auto
    have fs: "\<forall>c \<in> set (tl ds). is_digit c"
      using dig ne by (cases ds) auto
    let ?r2 = "CHR ''e'' # exponent_text (n - 1) @ rest"
    have r2: "?r2 = [] \<or> \<not> is_digit (hd ?r2)" by (simp add: not_digit_chars)
    let ?r1 = "CHR ''.'' # tl ds @ ?r2"
    have r1: "?r1 = [] \<or> \<not> is_digit (hd ?r1)" by (simp add: not_digit_chars)
    have v: "digits_to_nat (?ip @ tl ds) = s" using ne val by simp
    have "int (length (tl ds)) = k - 1" using ne by (cases ds) (simp_all add: k_def)
    then have lt: "lowest_terms s (n - 1 - int (length (tl ds))) = (s, e)"
      using same by (simp add: n_def)
    from scan_number_parts [OF ip r1 scan_fraction_digits [OF fs tl r2] scan_exponent_text [OF re(1)]]
    show ?thesis
      unfolding shape v using canonical_lowest [OF lt s(1)] by simp
  qed
qed


lemma scan_number_Number_text:
  assumes "is_finite x" and "number_end rest"
  shows "scan_number (Number_text x @ rest) = Some (printed x, rest)"
proof -
  from assms(1) obtain negative s e where x: "x = Finite negative s e"
    by (cases x) (simp_all add: is_finite_def)
  obtain s' e' where l: "lowest_terms s e = (s', e')" by (cases "lowest_terms s e")
  note re = number_end_parts [OF assms(2)]
  show ?thesis
  proof (cases "s' = 0")
    case True
    have zero: "lowest_terms 0 0 = (0, 0)" by (subst lowest_terms.simps) simp
    have ip: "\<forall>c \<in> set ''0''. is_digit c" "''0'' \<noteq> []"
      "\<not> (hd ''0'' = CHR ''0'' \<and> 1 < length ''0'')"
      by (simp_all add: is_digit_zero)
    have v: "digits_to_nat (''0'' @ []) = 0" using digits_to_nat_zeros [of 1] by simp
    from scan_number_parts(1) [OF ip re(1) scan_fraction_none [OF re(2)] scan_exponent_none [OF re(3)]]
    show ?thesis unfolding v using True l x zero by simp
  next
    case False
    with lowest_terms_result [OF l] have s': "0 < s'" "s' mod 10 \<noteq> 0" by auto
    from scan_decimal_text [OF s' assms(2), of e'] False l x show ?thesis by auto
  qed
qed

lemma decimal_text_hd:
  assumes "0 < s"
  shows "decimal_text s e \<noteq> [] \<and> is_digit (hd (decimal_text s e))"
proof -
  define ds where "ds = nat_digits s"
  have dig: "\<forall>c \<in> set ds. is_digit c" by (simp add: ds_def nat_digits_all_digits)
  have ne: "ds \<noteq> []" by (simp add: ds_def nat_digits_not_empty)
  then have h: "is_digit (hd ds)" using dig by (cases ds) auto
  have t: "0 < i \<Longrightarrow> take i ds \<noteq> [] \<and> hd (take i ds) = hd ds" for i
    using ne by (cases ds; cases i) auto
  show ?thesis
    using ne h t [of "nat (int (length ds) + e)"]
    by (auto simp: decimal_text_def Let_def ds_def [symmetric] is_digit_zero)
qed

lemma Number_text_hd:
  assumes "is_finite x"
  shows "Number_text x \<noteq> [] \<and> (is_digit (hd (Number_text x)) \<or> hd (Number_text x) = CHR ''-'')"
proof -
  from assms obtain negative s e where x: "x = Finite negative s e"
    by (cases x) (simp_all add: is_finite_def)
  obtain s' e' where l: "lowest_terms s e = (s', e')" by (cases "lowest_terms s e")
  show ?thesis
  proof (cases "s' = 0")
    case True
    with l x show ?thesis by (simp add: is_digit_zero)
  next
    case False
    then have "0 < s'" by simp
    from decimal_text_hd [OF this, of e'] False l x show ?thesis by auto
  qed
qed

subsection \<open>Strings\<close>

lemma hex_value_hex_char:
  assumes "d < 16"
  shows "hex_value (hex_char d) = Some d"
proof -
  from assms consider "d = 0" | "d = 1" | "d = 2" | "d = 3" | "d = 4" | "d = 5" | "d = 6"
    | "d = 7" | "d = 8" | "d = 9" | "d = 10" | "d = 11" | "d = 12" | "d = 13" | "d = 14"
    | "d = 15"
    by atomize_elim arith
  then show ?thesis
    by cases (simp_all add: hex_char_def hex_value_def)
qed

lemma unicode_escape_low:
  assumes "(of_char c :: nat) < 32"
  shows "unicode_escape (CHR ''0'' # CHR ''0'' # hex_char (of_char c div 16)
                           # hex_char (of_char c mod 16) # tail)
           = Some ([c], 4)"
proof -
  have z: "hex_value (CHR ''0'') = Some 0" by (simp add: hex_value_def)
  have a: "hex_value (hex_char (of_char c div 16)) = Some (of_char c div 16)"
    using assms by (intro hex_value_hex_char) simp
  have b: "hex_value (hex_char (of_char c mod 16)) = Some (of_char c mod 16)"
    by (intro hex_value_hex_char) simp
  have v: "16 * ((of_char c :: nat) div 16) + of_char c mod 16 = of_char c"
    by simp
  have "hex4 (CHR ''0'' # CHR ''0'' # hex_char (of_char c div 16)
                # hex_char (of_char c mod 16) # tail) = Some (of_char c)"
    using z a b v by (simp add: hex4_def)
  then show ?thesis using assms by (simp add: unicode_escape_def utf8_def)
qed

lemma scan_quote_unit:
  "scan_string (quote_unit c @ tail) = push_char c (scan_string tail)"
proof -
  consider (bs) "c = CHR 0x08" | (tab) "c = CHR 0x09" | (nl) "c = CHR 0x0A" | (ff) "c = CHR 0x0C"
    | (cr) "c = CHR 0x0D" | (dq) "c = dquote" | (bsl) "c = backslash"
    | (low) "c \<noteq> CHR 0x08" "c \<noteq> CHR 0x09" "c \<noteq> CHR 0x0A" "c \<noteq> CHR 0x0C" "c \<noteq> CHR 0x0D"
        "c \<noteq> dquote" "c \<noteq> backslash" "(of_char c :: nat) < 32"
    | (plain) "c \<noteq> CHR 0x08" "c \<noteq> CHR 0x09" "c \<noteq> CHR 0x0A" "c \<noteq> CHR 0x0C" "c \<noteq> CHR 0x0D"
        "c \<noteq> dquote" "c \<noteq> backslash" "\<not> (of_char c :: nat) < 32"
    by blast
  then show ?thesis
  proof cases
    case low
    then show ?thesis
      by (simp add: quote_unit_def unicode_escape_low push_chars_def push_char_def
            split: option.splits)
         (simp add: dquote_def backslash_def)
  next
    case plain
    then show ?thesis by (simp add: quote_unit_def)
  qed (simp_all add: quote_unit_def dquote_def backslash_def simple_escape_def)
qed

lemma scan_quoted_body:
  "scan_string (concat (map quote_unit s) @ dquote # rest) = Some (s, rest)"
  by (induction s) (simp_all add: scan_quote_unit push_char_def)

subsection \<open>Tokens of a serialized document\<close>

lemma emit_emit: "emit a (emit b r) = emit (a @ b) r"
  by (cases r) (simp_all add: emit_def)

lemma emit_nil: "emit [] r = r"
  by (cases r) (simp_all add: emit_def)

lemma push_token_emit: "push_token t r = emit [t] r"
  by (cases r) (simp_all add: push_token_def emit_def)

lemma tokenize_ws: "\<forall>c \<in> set ws. is_ws c \<Longrightarrow> tokenize (ws @ s) = tokenize s"
  by (induction ws) (simp_all add: tokenize.simps)

lemma tokenize_punctuation:
  "tokenize (CHR ''{'' # s) = emit [TLBrace] (tokenize s)"
  "tokenize (CHR ''}'' # s) = emit [TRBrace] (tokenize s)"
  "tokenize (CHR ''['' # s) = emit [TLBracket] (tokenize s)"
  "tokenize (CHR '']'' # s) = emit [TRBracket] (tokenize s)"
  "tokenize (CHR '':'' # s) = emit [TColon] (tokenize s)"
  "tokenize (CHR '','' # s) = emit [TComma] (tokenize s)"
  by (simp_all add: tokenize.simps is_ws_def push_token_emit)

lemma tokenize_literals:
  "tokenize (''null'' @ s) = emit [TNull] (tokenize s)"
  "tokenize (''true'' @ s) = emit [TTrue] (tokenize s)"
  "tokenize (''false'' @ s) = emit [TFalse] (tokenize s)"
  by (simp_all add: tokenize.simps is_ws_def is_digit_def dquote_def push_token_emit)

lemma tokenize_string:
  "tokenize (QuoteJSONString k @ s) = emit [TString k] (tokenize s)"
proof -
  have "tokenize (dquote # concat (map quote_unit k) @ dquote # s) = emit [TString k] (tokenize s)"
    by (simp add: tokenize.simps scan_quoted_body push_token_emit) (simp add: dquote_def is_ws_def)
  then show ?thesis by (simp add: QuoteJSONString_def)
qed

lemma is_digit_not_special:
  assumes "is_digit c \<or> c = CHR ''-''"
  shows "\<not> is_ws c" "c \<noteq> CHR ''{''" "c \<noteq> CHR ''}''" "c \<noteq> CHR ''[''" "c \<noteq> CHR '']''"
    "c \<noteq> CHR '':''" "c \<noteq> CHR '',''" "c \<noteq> dquote"
  using assms by (auto simp: is_digit_def is_ws_def dquote_def)

lemma tokenize_number:
  assumes "is_finite x" and "number_end s"
  shows "tokenize (Number_text x @ s) = emit [TNumber (printed x)] (tokenize s)"
proof -
  obtain c cs where cs: "Number_text x = c # cs" and c: "is_digit c \<or> c = CHR ''-''"
    using Number_text_hd [OF assms(1)] by (cases "Number_text x") auto
  have "scan_number (c # cs @ s) = Some (printed x, s)"
    using scan_number_Number_text [OF assms] cs by simp
  then have "tokenize (c # cs @ s) = emit [TNumber (printed x)] (tokenize s)"
    using c is_digit_not_special [OF c] by (auto simp: tokenize.simps push_token_emit)
  then show ?thesis using cs by simp
qed

lemma number_end_simps:
  "number_end (CHR '','' # s)" "number_end (CHR '']'' # s)" "number_end (CHR ''}'' # s)"
  "number_end (newline # s)" "number_end []"
  by (simp_all add: number_end_def is_digit_def newline_def)

lemma tokenize_join:
  assumes "\<forall>x \<in> set xs. \<forall>rest. number_end rest \<longrightarrow> tokenize (f x @ rest) = emit (g x) (tokenize rest)"
    and "\<forall>c \<in> set ws. is_ws c"
    and "number_end rest"
  shows "tokenize (join_lists (map f xs) (CHR '','' # ws) @ rest)
           = emit (join_lists (map g xs) [TComma]) (tokenize rest)"
  using assms(1)
proof (induction xs rule: induct_list012)
  case 1
  then show ?case by (simp add: emit_nil)
next
  case (2 x)
  then show ?case using assms(3) by simp
next
  case (3 x y zs)
  let ?tail = "join_lists (map f (y # zs)) (CHR '','' # ws) @ rest"
  have e1: "tokenize (f x @ CHR '','' # ws @ ?tail) = emit (g x) (tokenize (CHR '','' # ws @ ?tail))"
    using 3(3) by (simp add: number_end_simps)
  have e2: "tokenize (CHR '','' # ws @ ?tail) = emit [TComma] (tokenize (ws @ ?tail))"
    by (rule tokenize_punctuation)
  have e3: "tokenize (ws @ ?tail) = tokenize ?tail"
    by (rule tokenize_ws [OF assms(2)])
  have e4: "tokenize ?tail = emit (join_lists (map g (y # zs)) [TComma]) (tokenize rest)"
    using 3(3) by (intro 3(2)) simp
  have "tokenize (f x @ CHR '','' # ws @ ?tail)
          = emit (g x @ TComma # join_lists (map g (y # zs)) [TComma]) (tokenize rest)"
    unfolding e1 e2 e3 e4 by (simp add: emit_emit)
  then show ?case by simp
qed

lemma tokenize_wrap:
  assumes el: "\<forall>x \<in> set xs. \<forall>rest. number_end rest \<longrightarrow> tokenize (f x @ rest) = emit (g x) (tokenize rest)"
    and gap: "\<forall>c \<in> set gap. is_ws c" and sb: "\<forall>c \<in> set stepback. is_ws c"
    and op: "\<And>s. tokenize (opening # s) = emit [topen] (tokenize s)"
    and cl: "\<And>s. tokenize (closing # s) = emit [tclose] (tokenize s)"
    and ne: "\<And>s. number_end (closing # s)"
  shows "tokenize (wrap_partial gap stepback opening closing (map f xs) @ rest)
           = emit (topen # join_lists (map g xs) [TComma] @ [tclose]) (tokenize rest)"
proof (cases "xs = []")
  case True
  then show ?thesis by (simp add: wrap_partial_def op cl emit_emit)
next
  case xs: False
  show ?thesis
  proof (cases "gap = []")
    case True
    have "tokenize (join_lists (map f xs) (CHR '','' # []) @ closing # rest)
            = emit (join_lists (map g xs) [TComma]) (tokenize (closing # rest))"
      by (rule tokenize_join [OF el _ ne]) simp
    with xs True show ?thesis by (simp add: wrap_partial_def op cl emit_emit)
  next
    case False
    have ws: "\<forall>c \<in> set (newline # stepback @ gap). is_ws c"
      using gap sb by (auto simp: is_ws_def newline_def)
    have ws': "\<forall>c \<in> set (newline # stepback). is_ws c"
      using sb by (auto simp: is_ws_def newline_def)
    have "tokenize (join_lists (map f xs) (CHR '','' # newline # stepback @ gap)
                 @ newline # stepback @ closing # rest)
            = emit (join_lists (map g xs) [TComma]) (tokenize (newline # stepback @ closing # rest))"
      by (rule tokenize_join [OF el ws]) (simp add: number_end_simps)
    moreover have "tokenize (newline # stepback @ closing # rest) = tokenize (closing # rest)"
      using tokenize_ws [OF ws', of "closing # rest"] by simp
    moreover have "tokenize (newline # (stepback @ gap) @ s) = tokenize s" for s
      using tokenize_ws [OF ws, of s] by simp
    ultimately show ?thesis using xs False
      by (simp add: wrap_partial_def Let_def op cl emit_emit)
  qed
qed

lemma tokenize_serialize:
  assumes "\<forall>c \<in> set gap. is_ws c" and "\<forall>c \<in> set indent. is_ws c" and "number_end rest"
  shows "tokenize (SerializeJSONProperty gap indent v @ rest) = emit (tokens_of v) (tokenize rest)"
  using assms
proof (induction gap indent v arbitrary: rest rule: SerializeJSONProperty.induct)
  case (1 gap indent)
  then show ?case using tokenize_literals(1) [of rest] by simp
next
  case (2 gap indent b)
  then show ?case using tokenize_literals(2,3) [of rest] by simp
next
  case (3 gap indent x)
  then show ?case using tokenize_literals(1) [of rest] by (simp add: tokenize_number)
next
  case (4 gap indent s)
  then show ?case by (simp add: tokenize_string)
next
  case (5 gap indent xs)
  have wsi: "\<forall>c \<in> set (indent @ gap). is_ws c" using 5(2,3) by auto
  have "tokenize (wrap_partial gap indent (CHR ''['') (CHR '']'')
               (map (SerializeJSONProperty gap (indent @ gap)) xs) @ rest)
          = emit (TLBracket # join_lists (map tokens_of xs) [TComma] @ [TRBracket]) (tokenize rest)"
  proof (rule tokenize_wrap)
    show "\<forall>x \<in> set xs. \<forall>rest. number_end rest \<longrightarrow>
            tokenize (SerializeJSONProperty gap (indent @ gap) x @ rest) = emit (tokens_of x) (tokenize rest)"
      using 5(1) [OF _ 5(2) wsi] by blast
  qed (use 5(2,3) in \<open>simp_all add: tokenize_punctuation number_end_simps\<close>)
  then show ?case by simp
next
  case (6 gap indent ms)
  have wsi: "\<forall>c \<in> set (indent @ gap). is_ws c" using 6(2,3) by auto
  let ?f = "\<lambda>m. QuoteJSONString (fst m) @ '':'' @ (if gap = [] then [] else '' '')
                   @ SerializeJSONProperty gap (indent @ gap) (snd m)"
  let ?g = "\<lambda>m. TString (fst m) # TColon # tokens_of (snd m)"
  have "tokenize (wrap_partial gap indent (CHR ''{'') (CHR ''}'') (map ?f ms) @ rest)
          = emit (TLBrace # join_lists (map ?g ms) [TComma] @ [TRBrace]) (tokenize rest)"
  proof (rule tokenize_wrap)
    show "\<forall>m \<in> set ms. \<forall>rest. number_end rest \<longrightarrow> tokenize (?f m @ rest) = emit (?g m) (tokenize rest)"
    proof (intro ballI allI impI)
      fix m rest assume m: "m \<in> set ms" and r: "number_end rest"
      let ?v = "SerializeJSONProperty gap (indent @ gap) (snd m) @ rest"
      have v: "tokenize ?v = emit (tokens_of (snd m)) (tokenize rest)"
        using 6(1) [OF m 6(2) wsi r] .
      have sp: "tokenize ((if gap = [] then [] else '' '') @ ?v) = tokenize ?v"
        by (rule tokenize_ws) (simp add: is_ws_def)
      have k: "tokenize (QuoteJSONString (fst m) @ CHR '':'' # (if gap = [] then [] else '' '') @ ?v)
                 = emit [TString (fst m)] (tokenize (CHR '':'' # (if gap = [] then [] else '' '') @ ?v))"
        by (rule tokenize_string)
      have c: "tokenize (CHR '':'' # (if gap = [] then [] else '' '') @ ?v)
                 = emit [TColon] (tokenize ((if gap = [] then [] else '' '') @ ?v))"
        by (rule tokenize_punctuation)
      have "tokenize (QuoteJSONString (fst m) @ CHR '':'' # (if gap = [] then [] else '' '') @ ?v)
              = emit (?g m) (tokenize rest)"
        unfolding k c sp v by (simp add: emit_emit)
      then show "tokenize (?f m @ rest) = emit (?g m) (tokenize rest)" by simp
    qed
  qed (use 6(2,3) in \<open>simp_all add: tokenize_punctuation number_end_simps\<close>)
  then show ?case by simp
qed

subsection \<open>Documents from tokens\<close>

lemma tokens_of_start:
  "\<exists>t ts. tokens_of v = t # ts \<and> t \<noteq> TRBracket \<and> t \<noteq> TRBrace"
  by (cases v) simp_all

lemma join_lists_start:
  assumes "xs \<noteq> []" and "g (hd xs) = t # ts"
  shows "\<exists>us. join_lists (map g xs) sep @ tail = t # us"
  using assms by (induction xs rule: induct_list012) simp_all

lemma parse_elements_join:
  assumes "\<forall>x \<in> set xs. \<forall>n rest. length (tokens_of x) \<le> n \<longrightarrow>
             parse_value n (tokens_of x @ rest) = Some (read_back x, rest)"
    and "xs \<noteq> []"
    and "length (join_lists (map tokens_of xs) [TComma]) < n"
  shows "parse_elements n (join_lists (map tokens_of xs) [TComma] @ TRBracket # rest)
           = Some (map read_back xs, rest)"
  using assms
proof (induction xs arbitrary: n rule: induct_list012)
  case 1
  then show ?case by simp
next
  case (2 x)
  then obtain m where n: "n = Suc m" by (cases n) auto
  with 2 have "parse_value m (tokens_of x @ TRBracket # rest) = Some (read_back x, TRBracket # rest)"
    by simp
  with n show ?case by simp
next
  case (3 x y zs)
  then obtain m where n: "n = Suc m" by (cases n) auto
  let ?tail = "join_lists (map tokens_of (y # zs)) [TComma] @ TRBracket # rest"
  from 3(3,5) n have "parse_value m (tokens_of x @ TComma # ?tail) = Some (read_back x, TComma # ?tail)"
    by simp
  moreover from 3(3,5) n have "parse_elements m ?tail = Some (map read_back (y # zs), rest)"
    by (intro 3(2)) simp_all
  ultimately show ?case using n by simp
qed

lemma parse_members_join:
  assumes "\<forall>m \<in> set ms. \<forall>n rest. length (tokens_of (snd m)) \<le> n \<longrightarrow>
             parse_value n (tokens_of (snd m) @ rest) = Some (read_back (snd m), rest)"
    and "ms \<noteq> []"
    and "length (join_lists (map (\<lambda>m. TString (fst m) # TColon # tokens_of (snd m)) ms) [TComma]) < n"
  shows "parse_members n
           (join_lists (map (\<lambda>m. TString (fst m) # TColon # tokens_of (snd m)) ms) [TComma]
              @ TRBrace # rest)
           = Some (map (\<lambda>m. (fst m, read_back (snd m))) ms, rest)"
  using assms
proof (induction ms arbitrary: n rule: induct_list012)
  case 1
  then show ?case by simp
next
  case (2 x)
  then obtain m where n: "n = Suc m" by (cases n) auto
  with 2 have "parse_value m (tokens_of (snd x) @ TRBrace # rest)
                 = Some (read_back (snd x), TRBrace # rest)"
    by simp
  with n show ?case by simp
next
  case (3 x y zs)
  then obtain m where n: "n = Suc m" by (cases n) auto
  let ?g = "\<lambda>m. TString (fst m) # TColon # tokens_of (snd m)"
  let ?tail = "join_lists (map ?g (y # zs)) [TComma] @ TRBrace # rest"
  from 3(3,5) n have "parse_value m (tokens_of (snd x) @ TComma # ?tail)
                        = Some (read_back (snd x), TComma # ?tail)"
    by simp
  moreover from 3(3,5) n
  have "parse_members m ?tail = Some (map (\<lambda>m. (fst m, read_back (snd m))) (y # zs), rest)"
    by (intro 3(2)) simp_all
  ultimately show ?case using n by simp
qed

lemma parse_tokens_of:
  "length (tokens_of v) \<le> n \<Longrightarrow> parse_value n (tokens_of v @ rest) = Some (read_back v, rest)"
proof (induction v arbitrary: n rest rule: tokens_of.induct)
  case 1
  then show ?case by (cases n) simp_all
next
  case (2 b)
  then show ?case by (cases n) simp_all
next
  case (3 k)
  then show ?case by (cases n) simp_all
next
  case (4 s)
  then show ?case by (cases n) simp_all
next
  case (5 xs)
  then obtain m where n: "n = Suc m" by (cases n) auto
  show ?case
  proof (cases "xs = []")
    case True
    with n show ?thesis by simp
  next
    case False
    let ?ts = "join_lists (map tokens_of xs) [TComma] @ TRBracket # rest"
    obtain t us where t: "tokens_of (hd xs) = t # us" "t \<noteq> TRBracket"
      using tokens_of_start by blast
    from join_lists_start [of xs tokens_of t us "[TComma]" "TRBracket # rest", OF False t(1)]
    obtain ws where "?ts = t # ws" by blast
    with t(2) have hd: "\<not> (?ts \<noteq> [] \<and> hd ?ts = TRBracket)" by simp
    have "parse_elements m ?ts = Some (map read_back xs, rest)"
      using 5 n False by (intro parse_elements_join) auto
    with hd n show ?thesis by simp
  qed
next
  case (6 ms)
  then obtain m where n: "n = Suc m" by (cases n) auto
  show ?case
  proof (cases "ms = []")
    case True
    with n show ?thesis by simp
  next
    case False
    let ?g = "\<lambda>m. TString (fst m) # TColon # tokens_of (snd m)"
    let ?ts = "join_lists (map ?g ms) [TComma] @ TRBrace # rest"
    have "?g (hd ms) = TString (fst (hd ms)) # TColon # tokens_of (snd (hd ms))" by simp
    from join_lists_start [of ms ?g _ _ "[TComma]" "TRBrace # rest", OF False this]
    obtain ws where "?ts = TString (fst (hd ms)) # ws"
      by blast
    then have hd: "\<not> (?ts \<noteq> [] \<and> hd ?ts = TRBrace)" by simp
    have "parse_members m ?ts = Some (map (\<lambda>m. (fst m, read_back (snd m))) ms, rest)"
      using 6 n False by (intro parse_members_join) auto
    with hd n show ?thesis by simp
  qed
qed

text \<open>
  Every document is read back from its text, whatever the indentation: the same document
  with every number by its value.
\<close>

lemma JSON_parse_stringify: "JSON_parse (JSON_stringify v space) = Some (read_back v)"
proof -
  have "tokenize (SerializeJSONProperty (replicate (min 10 space) (CHR '' '')) [] v @ [])
          = emit (tokens_of v) (tokenize [])"
    by (rule tokenize_serialize) (simp_all add: is_ws_def number_end_simps)
  then have l: "tokenize (JSON_stringify v space) = Some (tokens_of v)"
    by (simp add: JSON_stringify_def emit_def tokenize.simps)
  have "parse_value (Suc (length (tokens_of v))) (tokens_of v @ []) = Some (read_back v, [])"
    by (rule parse_tokens_of) simp
  with l show ?thesis by (simp add: JSON_parse_def)
qed

subsection \<open>The serializer against the two layouts of the specification\<close>

lemma concat_join_tokens:
  "concat (map token_text (join_lists (map g xs) [TComma]))
     = join_lists (map (\<lambda>x. concat (map token_text (g x))) xs) '',''"
  by (induction xs rule: induct_list012) simp_all

lemma wrap_partial_compact:
  "wrap_partial [] stepback opening closing partial = opening # join_lists partial '','' @ [closing]"
  by (simp add: wrap_partial_def)

lemma serialize_compact:
  "gap = [] \<Longrightarrow> SerializeJSONProperty gap indent v = spec_compact v"
proof (induction gap indent v rule: SerializeJSONProperty.induct)
  case (5 gap indent xs)
  have "map (SerializeJSONProperty gap (indent @ gap)) xs
          = map (\<lambda>x. concat (map token_text (tokens_of x))) xs"
    by (rule map_cong [OF refl]) (use 5 in \<open>simp add: spec_compact_def\<close>)
  then show ?case using 5(2)
    by (simp add: spec_compact_def wrap_partial_compact concat_join_tokens cong: map_cong)
next
  case (6 gap indent ms)
  have "map (\<lambda>m. QuoteJSONString (fst m) @ '':'' @ (if gap = [] then [] else '' '')
                    @ SerializeJSONProperty gap (indent @ gap) (snd m)) ms
           = map (\<lambda>m. concat (map token_text (TString (fst m) # TColon # tokens_of (snd m)))) ms"
    by (rule map_cong [OF refl]) (use 6 in \<open>simp add: spec_compact_def\<close>)
  then show ?case using 6(2)
    by (simp add: spec_compact_def wrap_partial_compact concat_join_tokens cong: map_cong)
qed (simp_all add: spec_compact_def Number_text_printed)

lemma replicate_shift: "replicate n c @ (c # xs) = c # replicate n c @ xs"
  by (induction n) simp_all

lemma serialize_pretty:
  "SerializeJSONProperty ''  '' (replicate (2 * depth) (CHR '' '')) v = spec_pretty depth v"
proof (induction depth v rule: spec_pretty.induct)
  case (1 depth xs)
  show ?case
  proof (cases "xs = []")
    case True
    then show ?thesis by (simp add: wrap_partial_def)
  next
    case False
    have "map (SerializeJSONProperty ''  '' (replicate (2 * depth) (CHR '' '') @ ''  '')) xs
               = map (spec_pretty (Suc depth)) xs"
      by (rule map_cong [OF refl]) (use 1 False in \<open>simp add: replicate_shift\<close>)
    with False show ?thesis
      by (simp add: wrap_partial_def Let_def line_start_def replicate_shift cong: map_cong)
  qed
next
  case (2 depth ms)
  show ?case
  proof (cases "ms = []")
    case True
    then show ?thesis by (simp add: wrap_partial_def)
  next
    case False
    have "map (\<lambda>m. QuoteJSONString (fst m) @ '':'' @ (if ''  '' = [] then [] else '' '')
                    @ SerializeJSONProperty ''  '' (replicate (2 * depth) (CHR '' '') @ ''  '') (snd m)) ms
               = map (\<lambda>m. QuoteJSONString (fst m) @ '': '' @ spec_pretty (Suc depth) (snd m)) ms"
      by (rule map_cong [OF refl]) (use 2 False in \<open>simp add: replicate_shift\<close>)
    with False show ?thesis
      by (simp add: wrap_partial_def Let_def line_start_def replicate_shift cong: map_cong)
  qed
qed (simp_all add: spec_compact_def Number_text_printed)

section \<open>Properties of the adapter\<close>


text \<open>
  Where no reported path holds a symbol, a rejected candidate gets the failure outcome
  with one record per issue, in the library's order, each field taken from its issue.
\<close>

lemma validate_failure_without_symbols:
  assumes "safeParse z (the_schema engine) toValidate = Inr (SafeParseError issues)"
    and "\<forall>issue \<in> set issues. \<forall>k \<in> set (issue_path issue). \<not> is_symbol k"
  shows "validate z engine toValidate =
           (Inr (Failure (map (\<lambda>issue. \<lparr>path = spec_dotted_path (issue_path issue),
                                         input = issue_input issue,
                                         details = issue_code issue,
                                         message = issue_message issue,
                                         raw = issue\<rparr>) issues)),
            [Call_safeParse])"
proof -
  have "Array_map to_Issue issues =
          Inr (map (\<lambda>issue. \<lparr>path = spec_dotted_path (issue_path issue),
                               input = issue_input issue, details = issue_code issue,
                               message = issue_message issue, raw = issue\<rparr>) issues)"
    using assms(2)
    by (intro Array_map_Inr)
       (simp add: list_all2_map2 list_all2_same to_Issue_def Array_join_no_symbol
          spec_dotted_path_def)
  then show ?thesis using assms(1) by (simp add: validate_def)
qed

text \<open>\<^verbatim>\<open>validate\<close> makes one call out of the adapter, to the non-throwing entry point.\<close>

lemma validate_calls_safeParse_only:
  "snd (validate z engine toValidate) = [Call_safeParse]"
  by (simp add: validate_def split: sum.splits SafeParseResult.splits)

text \<open>One symbol in one reported path, and \<^verbatim>\<open>validate\<close> throws whatever else was reported.\<close>

lemma validate_throws_on_symbol_segment:
  assumes "safeParse z (the_schema engine) toValidate = Inr (SafeParseError issues)"
    and "\<exists>issue \<in> set issues. \<exists>k \<in> set (issue_path issue). is_symbol k"
  shows "validate z engine toValidate
           = (Inl (TypeError ''Cannot convert a Symbol value to a string''), [Call_safeParse])"
proof -
  have "Array_map to_Issue issues = Inl (TypeError ''Cannot convert a Symbol value to a string'')"
    using assms(2)
  proof (induction issues)
    case Nil
    then show ?case by simp
  next
    case (Cons issue issues)
    show ?case
    proof (cases "\<exists>k \<in> set (issue_path issue). is_symbol k")
      case True
      then show ?thesis by (simp add: to_Issue_def Array_join_symbol)
    next
      case False
      with Cons show ?thesis
        by (simp add: to_Issue_def Array_join_no_symbol)
    qed
  qed
  then show ?thesis using assms(1) by (simp add: validate_def)
qed

subsection \<open>Rejected candidates\<close>

text \<open>
  C1. A candidate the schema rejects should come back as \<^verbatim>\<open>{success: false, errors}\<close>
  with one record per reported issue. The record schema rejects the symbol-keyed object
  with one issue, whose path holds the symbol; \<^verbatim>\<open>issue.path.join('.')\<close> throws on it,
  and \<^verbatim>\<open>validate\<close> returns no outcome at all.
\<close>

theorem rejected_candidate_without_failure_outcome:
  "safeParse demo_zod Record_schema symbol_keyed = Inr (SafeParseError [key_issue])
   \<and> fst (validate demo_zod \<lparr>the_schema = Record_schema\<rparr> symbol_keyed)
       = Inl (TypeError ''Cannot convert a Symbol value to a string'')"
  by (simp add: validate_def demo_zod_def demo_safeParse_def symbol_keyed_def to_Issue_def
        key_issue_def)

text \<open>
  C2. \<^verbatim>\<open>validate\<close> calls the non-throwing entry point and nothing else of the library,
  and a failed validation should never leave it as an exception. On the symbol-keyed
  object the only call made is \<^verbatim>\<open>safeParse\<close>, which returns its report, and
  \<^verbatim>\<open>validate\<close> still ends in a TypeError.
\<close>

theorem validate_raises_after_safeParse:
  "validate demo_zod \<lparr>the_schema = Record_schema\<rparr> symbol_keyed
     = (Inl (TypeError ''Cannot convert a Symbol value to a string''), [Call_safeParse])"
  by (simp add: validate_def demo_zod_def demo_safeParse_def symbol_keyed_def to_Issue_def
        key_issue_def)

subsection \<open>Accepted candidates\<close>

text \<open>
  C3. For a candidate the library accepts, \<^verbatim>\<open>validate\<close> returns
  \<^verbatim>\<open>{success: true, value}\<close> whose value is the library's own output \<open>d\<close>, with
  whatever defaults and coercions the library applied, unchanged by the adapter.
\<close>

theorem validate_success_value:
  assumes "safeParse z (the_schema engine) toValidate = Inr (SafeParseSuccess d)"
  shows "validate z engine toValidate = (Inr (Success d), [Call_safeParse])"
  using assms by (simp add: validate_def)

theorem validate_success_value_witness:
  "safeParse demo_zod (the_schema \<lparr>the_schema = Direct_schema\<rparr>) valid_data
     = Inr (SafeParseSuccess valid_data)
   \<and> validate demo_zod \<lparr>the_schema = Direct_schema\<rparr> valid_data
     = (Inr (Success valid_data), [Call_safeParse])"
proof -
  have h: "safeParse demo_zod (the_schema \<lparr>the_schema = Direct_schema\<rparr>) valid_data
     = Inr (SafeParseSuccess valid_data)"
    by (simp add: demo_zod_def demo_safeParse_def)
  from validate_success_value [OF h] h show ?thesis by simp
qed

subsection \<open>The path of an issue\<close>



subsection \<open>Construction\<close>

text \<open>
  C6. A function handed to \<^verbatim>\<open>zodEngine\<close> is called once, with the library namespace,
  while the engine is built: the schema it returns is retained, and what it throws
  leaves \<^verbatim>\<open>zodEngine\<close>. Any other argument is retained as it is, with no call. Neither
  \<^verbatim>\<open>validate\<close> nor \<^verbatim>\<open>toJsonSchema\<close> ever calls the function.
\<close>

theorem factory_called_once:
  "(f z = Inr s \<longrightarrow> zodEngine z (Function f) = (Inr \<lparr>the_schema = s\<rparr>, [Call_factory]))
   \<and> (f z = Inl e \<longrightarrow> zodEngine z (Function f) = (Inl e, [Call_factory]))
   \<and> zodEngine z (NotFunction s') = (Inr \<lparr>the_schema = s'\<rparr>, [])
   \<and> Call_factory \<notin> set (snd (validate z engine toValidate))
   \<and> Call_factory \<notin> set (snd (toJsonSchema z engine arg))"
  by (auto simp: zodEngine_def validate_def toJsonSchema_def
           split: sum.splits SafeParseResult.splits)

theorem factory_called_once_witness:
  "(\<lambda>z. Inr Direct_schema) demo_zod = (Inr Direct_schema :: js_exn + demo_schema)
   \<and> zodEngine demo_zod (Function (\<lambda>z. Inr Direct_schema))
       = (Inr \<lparr>the_schema = Direct_schema\<rparr>, [Call_factory])
   \<and> (\<lambda>z. Inl (Thrown ''boom'')) demo_zod = (Inl (Thrown ''boom'') :: js_exn + demo_schema)
   \<and> zodEngine demo_zod (Function (\<lambda>z. Inl (Thrown ''boom'')))
       = (Inl (Thrown ''boom''), [Call_factory])
   \<and> zodEngine demo_zod (NotFunction Direct_schema) = (Inr \<lparr>the_schema = Direct_schema\<rparr>, [])"
  using factory_called_once [of "\<lambda>z. Inr Direct_schema" demo_zod Direct_schema
          "Thrown ''boom''" Direct_schema]
        factory_called_once [of "\<lambda>z. Inl (Thrown ''boom'')" demo_zod Direct_schema
          "Thrown ''boom''" Direct_schema]
  by simp

text \<open>
  C7. The claim that a value which is no usable schema fails at construction does not
  hold: \<^verbatim>\<open>zodEngine(null)\<close> returns an engine, and the library's TypeError surfaces
  only from the later \<^verbatim>\<open>validate\<close> or \<^verbatim>\<open>toJsonSchema\<close>.
\<close>

theorem unusable_schema_accepted:
  "zodEngine demo_zod (NotFunction Js_null) = (Inr \<lparr>the_schema = Js_null\<rparr>, [])
   \<and> fst (validate demo_zod \<lparr>the_schema = Js_null\<rparr> valid_data) = Inl not_a_schema
   \<and> fst (toJsonSchema demo_zod \<lparr>the_schema = Js_null\<rparr> None) = Inl not_a_schema"
  by (simp add: zodEngine_def validate_def toJsonSchema_def demo_zod_def demo_safeParse_def)

text \<open>
  C7, as amended. For every argument that is not a function, usable schema or not,
  \<^verbatim>\<open>zodEngine\<close> returns an engine that retains it and calls nothing; what the library
  throws when it is handed that value leaves the later \<^verbatim>\<open>validate\<close> or
  \<^verbatim>\<open>toJsonSchema\<close> call uncaught.
\<close>

theorem constructor_retains_any_value:
  "zodEngine z (NotFunction s) = (Inr \<lparr>the_schema = s\<rparr>, [])
   \<and> (safeParse z s toValidate = Inl e \<longrightarrow>
        fst (validate z \<lparr>the_schema = s\<rparr> toValidate) = Inl e)
   \<and> (toJSONSchema z s = Inl e' \<longrightarrow>
        fst (toJsonSchema z \<lparr>the_schema = s\<rparr> arg) = Inl e')"
  by (simp add: zodEngine_def validate_def toJsonSchema_def)

theorem constructor_retains_any_value_witness:
  "zodEngine demo_zod (NotFunction Js_null) = (Inr \<lparr>the_schema = Js_null\<rparr>, [])
   \<and> safeParse demo_zod Js_null valid_data = Inl not_a_schema
   \<and> fst (validate demo_zod \<lparr>the_schema = Js_null\<rparr> valid_data) = Inl not_a_schema
   \<and> toJSONSchema demo_zod Js_null = Inl not_a_schema
   \<and> fst (toJsonSchema demo_zod \<lparr>the_schema = Js_null\<rparr> (Some True)) = Inl not_a_schema"
proof -
  have h1: "safeParse demo_zod Js_null valid_data = Inl not_a_schema"
    by (simp add: demo_zod_def demo_safeParse_def)
  have h2: "toJSONSchema demo_zod Js_null = Inl not_a_schema"
    by (simp add: demo_zod_def)
  from constructor_retains_any_value
         [of demo_zod Js_null valid_data not_a_schema not_a_schema "Some True"] h1 h2
  show ?thesis by simp
qed

text \<open>
  C8. An engine built from a factory and an engine built from the schema that factory
  returns answer every \<^verbatim>\<open>validate\<close> and every \<^verbatim>\<open>toJsonSchema\<close> call alike.
\<close>

theorem factory_and_direct_agree:
  assumes "f z = Inr s"
  shows "\<exists>e1 e2. fst (zodEngine z (Function f)) = Inr e1
            \<and> fst (zodEngine z (NotFunction s)) = Inr e2
            \<and> (\<forall>toValidate. validate z e1 toValidate = validate z e2 toValidate)
            \<and> (\<forall>arg. toJsonSchema z e1 arg = toJsonSchema z e2 arg)"
  using assms by (simp add: zodEngine_def)

theorem factory_and_direct_agree_witness:
  "(\<lambda>z. Inr Direct_schema) demo_zod = (Inr Direct_schema :: js_exn + demo_schema)
   \<and> (\<exists>e1 e2. fst (zodEngine demo_zod (Function (\<lambda>z. Inr Direct_schema))) = Inr e1
            \<and> fst (zodEngine demo_zod (NotFunction Direct_schema)) = Inr e2
            \<and> (\<forall>toValidate. validate demo_zod e1 toValidate = validate demo_zod e2 toValidate)
            \<and> (\<forall>arg. toJsonSchema demo_zod e1 arg = toJsonSchema demo_zod e2 arg))"
proof -
  have h: "(\<lambda>z. Inr Direct_schema) demo_zod = (Inr Direct_schema :: js_exn + demo_schema)"
    by simp
  from factory_and_direct_agree [of "\<lambda>z. Inr Direct_schema" demo_zod Direct_schema, OF h] h
  show ?thesis by blast
qed

subsection \<open>Repeated calls\<close>

lemma validate_st_engine: "fst (snd (validate_st z x (engine, w))) = engine"
  by (simp add: validate_st_def split: prod.splits sum.splits SafeParseResult.splits)

lemma toJsonSchema_st_engine: "fst (snd (toJsonSchema_st z arg (engine, w))) = engine"
  by (simp add: toJsonSchema_st_def Let_def split: prod.splits sum.splits)

lemma call_engine_engine: "fst (snd (call_engine z r (engine, w))) = engine"
  by (cases r) (simp_all add: case_prod_beta validate_st_engine toJsonSchema_st_engine)

lemma run_calls_engine: "fst (snd (run_calls z calls (engine, w))) = engine"
proof (induction calls arbitrary: w)
  case Nil
  show ?case by simp
next
  case (Cons r rs)
  have "snd (call_engine z r (engine, w)) = (engine, snd (snd (call_engine z r (engine, w))))"
    using call_engine_engine [of z r engine w] by (simp add: prod_eq_iff)
  then have "run_calls z rs (snd (call_engine z r (engine, w)))
               = run_calls z rs (engine, snd (snd (call_engine z r (engine, w))))"
    by simp
  with Cons [of "snd (snd (call_engine z r (engine, w)))"] show ?case
    by (simp add: case_prod_beta)
qed

lemma run_calls_append:
  "run_calls z (xs @ ys) st =
     (fst (run_calls z xs st) @ fst (run_calls z ys (snd (run_calls z xs st))),
      snd (run_calls z ys (snd (run_calls z xs st))))"
  by (induction xs arbitrary: st) (simp_all split: prod.splits)

lemma run_calls_length: "length (fst (run_calls z calls st)) = length calls"
  by (induction calls arbitrary: st) (simp_all add: case_prod_beta)

text \<open>The outcome of a call is made from what \<^verbatim>\<open>safeParse\<close> answers in that call.\<close>

lemma validate_st_answer:
  assumes "fst (safeParse_st z (the_schema engine) x w1)
             = fst (safeParse_st z (the_schema engine) x w2)"
  shows "fst (validate_st z x (engine, w1)) = fst (validate_st z x (engine, w2))"
proof -
  obtain a1 v1 where p1: "safeParse_st z (the_schema engine) x w1 = (a1, v1)"
    by (cases "safeParse_st z (the_schema engine) x w1")
  obtain a2 v2 where p2: "safeParse_st z (the_schema engine) x w2 = (a2, v2)"
    by (cases "safeParse_st z (the_schema engine) x w2")
  from assms p1 p2 have "a1 = a2" by simp
  with p1 p2 show ?thesis
    by (simp add: validate_st_def split: sum.splits SafeParseResult.splits)
qed

text \<open>Over a library without state the two methods are the ones of the first part.\<close>

lemma validate_st_stateless:
  "validate_st (stateless z) x (engine, w) = (fst (validate z engine x), (engine, w))"
  by (simp add: validate_st_def validate_def stateless_def
        split: sum.splits SafeParseResult.splits)

lemma toJsonSchema_st_stateless:
  "toJsonSchema_st (stateless z) arg (engine, w) = (fst (toJsonSchema z engine arg), (engine, w))"
  by (simp add: toJsonSchema_st_def toJsonSchema_def stateless_def Let_def split: sum.splits)

text \<open>
  C9. The claim that two \<^verbatim>\<open>validate\<close> calls with the same input return equal
  outcomes does not hold for every schema: at the engine of the schema whose refinement
  passes at every other check, of two calls with the same candidate, one right after the
  other, the first reports success and the second failure.
\<close>

theorem validate_twice_differs:
  "fst (run_calls alternating_zod [Validate (VString ''a''), Validate (VString ''a'')] fresh_state)
     = [Validated (Inr (Success (VString ''a''))),
        Validated (Inr (Failure [\<lparr>path = [], input = None, details = ''custom'',
                                   message = ''Invalid input'', raw = custom_issue\<rparr>]))]"
  by (simp add: fresh_state_def alternating_zod_def validate_st_def to_Issue_def custom_issue_def)

text \<open>
  C9, as amended. No sequence of \<^verbatim>\<open>validate\<close> and \<^verbatim>\<open>toJsonSchema\<close> calls changes the
  engine: the retained schema is the same after as before. And whatever calls a host
  makes before, between and after, two \<^verbatim>\<open>validate\<close> calls with the same candidate get
  equal outcomes whenever \<^verbatim>\<open>safeParse\<close> answers the same for the retained schema and
  that candidate in the two states of the library it is called in.
\<close>

theorem validate_repeatable_by_library:
  "fst (snd (run_calls z calls (engine, w))) = engine
   \<and> (fst (safeParse_st z (the_schema engine) x (snd (snd (run_calls z before (engine, w)))))
        = fst (safeParse_st z (the_schema engine) x
                 (snd (snd (run_calls z (before @ Validate x # between) (engine, w)))))
      \<longrightarrow> fst (run_calls z (before @ Validate x # between @ Validate x # after) (engine, w))
             ! length before
           = fst (run_calls z (before @ Validate x # between @ Validate x # after) (engine, w))
             ! Suc (length before + length between))"
proof (intro conjI impI)
  show "fst (snd (run_calls z calls (engine, w))) = engine"
    by (rule run_calls_engine)
next
  let ?first = "snd (run_calls z before (engine, w))"
  let ?second = "snd (run_calls z (before @ Validate x # between) (engine, w))"
  let ?all = "before @ Validate x # between @ Validate x # after"
  assume same: "fst (safeParse_st z (the_schema engine) x (snd ?first))
                  = fst (safeParse_st z (the_schema engine) x (snd ?second))"
  have e1: "?first = (engine, snd ?first)"
    using run_calls_engine [of z before engine w] by (simp add: prod_eq_iff)
  have e2: "?second = (engine, snd ?second)"
    using run_calls_engine [of z "before @ Validate x # between" engine w]
    by (simp add: prod_eq_iff)
  have at: "fst (run_calls z (pre @ Validate x # post) st) ! length pre
              = Validated (fst (validate_st z x (snd (run_calls z pre st))))" for pre post st
    by (simp add: run_calls_append run_calls_length nth_append split: prod.splits)
  have "fst (run_calls z ?all (engine, w)) ! length before
          = Validated (fst (validate_st z x ?first))"
    by (rule at)
  moreover have "fst (run_calls z ((before @ Validate x # between) @ Validate x # after) (engine, w))
                   ! length (before @ Validate x # between)
                 = Validated (fst (validate_st z x ?second))"
    by (rule at)
  then have "fst (run_calls z ?all (engine, w)) ! Suc (length before + length between)
               = Validated (fst (validate_st z x ?second))"
    by simp
  moreover have "fst (validate_st z x ?first) = fst (validate_st z x ?second)"
    using validate_st_answer [OF same] e1 e2 by simp
  ultimately show "fst (run_calls z ?all (engine, w)) ! length before
                     = fst (run_calls z ?all (engine, w)) ! Suc (length before + length between)"
    by simp
qed

text \<open>
  Two instances. At the schema whose refinement passes at every other check, one more
  check between the two calls brings the refinement back to where it passes, and the
  outcomes are equal. Over the library without state, at \<^verbatim>\<open>directSchema\<close> and the invalid
  object of the tests, the condition holds of itself.
\<close>

theorem validate_repeatable_by_library_witness:
  "fst (run_calls alternating_zod
          [Validate (VString ''a''), ToJsonSchema None, Validate VNull, Validate (VString ''a'')]
          fresh_state) ! 0
     = fst (run_calls alternating_zod
          [Validate (VString ''a''), ToJsonSchema None, Validate VNull, Validate (VString ''a'')]
          fresh_state) ! 3
   \<and> fst (run_calls (stateless demo_zod)
            [ToJsonSchema None, Validate invalid_data, Validate valid_data, ToJsonSchema (Some True),
             Validate invalid_data]
            (\<lparr>the_schema = Direct_schema\<rparr>, ())) ! 1
     = fst (run_calls (stateless demo_zod)
            [ToJsonSchema None, Validate invalid_data, Validate valid_data, ToJsonSchema (Some True),
             Validate invalid_data]
            (\<lparr>the_schema = Direct_schema\<rparr>, ())) ! 4"
proof -
  let ?engine = "\<lparr>the_schema = Alternating_schema\<rparr>"
  let ?w = "\<lparr>refinement_runs = 0, registered_description = None\<rparr>"
  have a: "fst (safeParse_st alternating_zod (the_schema ?engine) (VString ''a'')
             (snd (snd (run_calls alternating_zod [] (?engine, ?w)))))
           = fst (safeParse_st alternating_zod (the_schema ?engine) (VString ''a'')
               (snd (snd (run_calls alternating_zod
                            ([] @ Validate (VString ''a'') # [ToJsonSchema None, Validate VNull])
                            (?engine, ?w)))))"
    by (simp add: alternating_zod_def validate_st_def toJsonSchema_st_def to_Issue_def
          custom_issue_def)
  have b: "fst (safeParse_st (stateless demo_zod) (the_schema \<lparr>the_schema = Direct_schema\<rparr>)
                 invalid_data w1)
           = fst (safeParse_st (stateless demo_zod) (the_schema \<lparr>the_schema = Direct_schema\<rparr>)
                 invalid_data w2)"
    for w1 w2 :: unit
    by (simp add: stateless_def)
  have l1: "[] @ Validate (VString ''a'') # [ToJsonSchema None, Validate VNull]
              @ Validate (VString ''a'') # []
            = [Validate (VString ''a''), ToJsonSchema None, Validate VNull, Validate (VString ''a'')]"
    by simp
  have l2: "[ToJsonSchema None] @ Validate invalid_data
              # [Validate valid_data, ToJsonSchema (Some True)] @ Validate invalid_data # []
            = [ToJsonSchema None, Validate invalid_data, Validate valid_data,
               ToJsonSchema (Some True), Validate invalid_data]"
    by simp
  have n: "length ([] :: js_value request list) = 0"
    "Suc (0 + length [ToJsonSchema None, Validate VNull :: js_value request]) = 3"
    "length [ToJsonSchema None :: js_value request] = 1"
    "Suc (1 + length [Validate valid_data, ToJsonSchema (Some True)]) = 4"
    by simp_all
  note first = validate_repeatable_by_library
      [of alternating_zod "[]" ?engine ?w "VString ''a''" "[]"
          "[ToJsonSchema None, Validate VNull]" "[]", THEN conjunct2, rule_format, OF a]
  note second = validate_repeatable_by_library
      [of "stateless demo_zod" "[]" "\<lparr>the_schema = Direct_schema\<rparr>" "()" invalid_data
          "[ToJsonSchema None]" "[Validate valid_data, ToJsonSchema (Some True)]" "[]",
       THEN conjunct2, rule_format, OF b]
  from first [unfolded l1 n] second [unfolded l2 n] show ?thesis
    unfolding fresh_state_def by (rule conjI)
qed

subsection \<open>Dots inside a segment\<close>

text \<open>
  C10. The dotted path does not identify the field: the one segment \<open>a.b\<close> and the two
  segments \<open>a\<close>, \<open>b\<close> are different segment lists with the same joined text, so two
  issues that differ in nothing else get records with equal paths.
\<close>

theorem dotted_path_ambiguous:
  "[PString ''a.b''] \<noteq> [PString ''a'', PString ''b'']
   \<and> Array_join [PString ''a.b''] ''.'' = Inr ''a.b''
   \<and> Array_join [PString ''a'', PString ''b''] ''.'' = Inr ''a.b''
   \<and> map_sum id path (to_Issue (root_issue\<lparr>issue_path := [PString ''a.b'']\<rparr>))
       = map_sum id path (to_Issue (root_issue\<lparr>issue_path := [PString ''a'', PString ''b'']\<rparr>))"
  by (simp add: to_Issue_def)

subsection \<open>The JSON Schema text\<close>

lemma tokenize_stringify: "tokenize (JSON_stringify doc space) = Some (tokens_of doc)"
proof -
  have "tokenize (SerializeJSONProperty (replicate (min 10 space) (CHR '' '')) [] doc @ [])
          = emit (tokens_of doc) (tokenize [])"
    by (rule tokenize_serialize) (simp_all add: is_ws_def number_end_simps)
  then show ?thesis by (simp add: JSON_stringify_def emit_def tokenize.simps)
qed

text \<open>
  C5. The claim that the output is a function of the retained schema and the flag alone
  does not hold: with the same retained schema and the same flag, the text before the
  host registers a description for the schema and the text after differ.
\<close>

theorem toJsonSchema_reads_registry:
  "fst (toJsonSchema_st alternating_zod None
          (\<lparr>the_schema = Alternating_schema\<rparr>,
           \<lparr>refinement_runs = 0, registered_description = None\<rparr>))
     = Inr (''{'' @ [dquote] @ ''$schema'' @ [dquote] @ '':'' @ [dquote]
            @ ''https://json-schema.org/draft/2020-12/schema'' @ [dquote] @ ''}'')
   \<and> fst (toJsonSchema_st alternating_zod None
            (\<lparr>the_schema = Alternating_schema\<rparr>,
             \<lparr>refinement_runs = 0, registered_description = Some ''d''\<rparr>))
     = Inr (''{'' @ [dquote] @ ''$schema'' @ [dquote] @ '':'' @ [dquote]
            @ ''https://json-schema.org/draft/2020-12/schema'' @ [dquote] @ '','' @ [dquote]
            @ ''description'' @ [dquote] @ '':'' @ [dquote] @ ''d'' @ [dquote] @ ''}'')
   \<and> fst (toJsonSchema_st alternating_zod None
            (\<lparr>the_schema = Alternating_schema\<rparr>,
             \<lparr>refinement_runs = 0, registered_description = None\<rparr>))
     \<noteq> fst (toJsonSchema_st alternating_zod None
              (\<lparr>the_schema = Alternating_schema\<rparr>,
               \<lparr>refinement_runs = 0, registered_description = Some ''d''\<rparr>))"
  by (simp add: toJsonSchema_st_def alternating_zod_def JSON_stringify_def wrap_partial_def
        QuoteJSONString_def quote_unit_def dquote_def backslash_def)

text \<open>
  C5, as amended. \<^verbatim>\<open>toJsonSchema()\<close> and \<^verbatim>\<open>toJsonSchema(false)\<close> are the same call,
  and no call changes the engine. Where the converter returns a document for the
  retained schema, \<^verbatim>\<open>toJsonSchema(false)\<close> returns the compact text, the document's
  tokens with nothing between them, and \<^verbatim>\<open>toJsonSchema(true)\<close> the same document laid
  out on lines behind two spaces for each level. Both texts have the same tokens, and
  both are read back as the same document, the one the converter returned with every
  number as it is printed. The text depends on nothing but what the converter answers in
  that call and the flag.
\<close>

theorem toJsonSchema_compact_and_pretty:
  "toJsonSchema_st z None (engine, w) = toJsonSchema_st z (Some False) (engine, w)
   \<and> fst (snd (toJsonSchema_st z arg (engine, w))) = engine
   \<and> (toJSONSchema_st z (the_schema engine) w = (Inr doc, w') \<longrightarrow>
         toJsonSchema_st z (Some False) (engine, w) = (Inr (JSON_stringify doc 0), (engine, w'))
       \<and> toJsonSchema_st z (Some True) (engine, w) = (Inr (JSON_stringify doc 2), (engine, w'))
       \<and> JSON_stringify doc 0 = spec_compact doc
       \<and> JSON_stringify doc 2 = spec_pretty 0 doc
       \<and> tokenize (JSON_stringify doc 2) = tokenize (JSON_stringify doc 0)
       \<and> JSON_parse (JSON_stringify doc 0) = Some (read_back doc)
       \<and> JSON_parse (JSON_stringify doc 2) = Some (read_back doc))
   \<and> (\<forall>(z2 :: ('s2, 'v2, 'w2) zod_st) engine2 w2.
         fst (toJSONSchema_st z2 (the_schema engine2) w2) = fst (toJSONSchema_st z (the_schema engine) w)
         \<longrightarrow> fst (toJsonSchema_st z arg (engine, w)) = fst (toJsonSchema_st z2 arg (engine2, w2)))"
proof (intro conjI impI allI)
  show "toJsonSchema_st z None (engine, w) = toJsonSchema_st z (Some False) (engine, w)"
    by (simp add: toJsonSchema_st_def)
  show "fst (snd (toJsonSchema_st z arg (engine, w))) = engine"
    by (rule toJsonSchema_st_engine)
  show "JSON_stringify doc 0 = spec_compact doc"
    by (simp add: JSON_stringify_def serialize_compact)
  have "replicate (min 10 2) (CHR '' '') = ''  ''"
    by (simp add: numeral_2_eq_2)
  then show "JSON_stringify doc 2 = spec_pretty 0 doc"
    using serialize_pretty [of 0 doc] by (simp add: JSON_stringify_def)
  show "tokenize (JSON_stringify doc 2) = tokenize (JSON_stringify doc 0)"
    by (simp only: tokenize_stringify)
  show "JSON_parse (JSON_stringify doc 0) = Some (read_back doc)"
    by (rule JSON_parse_stringify)
  show "JSON_parse (JSON_stringify doc 2) = Some (read_back doc)"
    by (rule JSON_parse_stringify)
next
  assume "toJSONSchema_st z (the_schema engine) w = (Inr doc, w')"
  then show "toJsonSchema_st z (Some False) (engine, w) = (Inr (JSON_stringify doc 0), (engine, w'))"
    by (simp add: toJsonSchema_st_def)
next
  assume "toJSONSchema_st z (the_schema engine) w = (Inr doc, w')"
  then show "toJsonSchema_st z (Some True) (engine, w) = (Inr (JSON_stringify doc 2), (engine, w'))"
    by (simp add: toJsonSchema_st_def)
next
  fix z2 :: "('s2, 'v2, 'w2) zod_st" and engine2 :: "'s2 GhiiEngine" and w2 :: 'w2
  assume same: "fst (toJSONSchema_st z2 (the_schema engine2) w2)
                  = fst (toJSONSchema_st z (the_schema engine) w)"
  obtain a1 v1 where p1: "toJSONSchema_st z (the_schema engine) w = (a1, v1)"
    by (cases "toJSONSchema_st z (the_schema engine) w")
  obtain a2 v2 where p2: "toJSONSchema_st z2 (the_schema engine2) w2 = (a2, v2)"
    by (cases "toJSONSchema_st z2 (the_schema engine2) w2")
  from same p1 p2 have "a2 = a1" by simp
  with p1 p2 show "fst (toJsonSchema_st z arg (engine, w)) = fst (toJsonSchema_st z2 arg (engine2, w2))"
    by (simp add: toJsonSchema_st_def Let_def split: sum.splits)
qed

text \<open>
  The document the tests record for \<^verbatim>\<open>directSchema\<close>, over the library without state:
  it is read back as it is from either text. And the two texts of the counterexample come
  from two different answers of the converter.
\<close>

theorem toJsonSchema_compact_and_pretty_witness:
  "toJSONSchema_st (stateless demo_zod) (the_schema \<lparr>the_schema = Direct_schema\<rparr>) ()
     = (Inr demo_document, ())
   \<and> toJsonSchema_st (stateless demo_zod) (Some False) (\<lparr>the_schema = Direct_schema\<rparr>, ())
       = (Inr (spec_compact demo_document), (\<lparr>the_schema = Direct_schema\<rparr>, ()))
   \<and> toJsonSchema_st (stateless demo_zod) (Some True) (\<lparr>the_schema = Direct_schema\<rparr>, ())
       = (Inr (spec_pretty 0 demo_document), (\<lparr>the_schema = Direct_schema\<rparr>, ()))
   \<and> JSON_parse (spec_compact demo_document) = Some demo_document
   \<and> JSON_parse (spec_pretty 0 demo_document) = Some demo_document
   \<and> fst (toJsonSchema_st (stateless demo_zod) (Some True) (\<lparr>the_schema = Direct_schema\<rparr>, ()))
       = fst (toJsonSchema_st (stateless demo_zod) (Some True) (\<lparr>the_schema = Record_schema\<rparr>, ()))"
proof -
  have h: "toJSONSchema_st (stateless demo_zod) (the_schema \<lparr>the_schema = Direct_schema\<rparr>) ()
             = (Inr demo_document, ())"
    by (simp add: stateless_def demo_zod_def)
  have r: "read_back demo_document = demo_document"
    by (simp add: demo_document_def is_finite_def lowest_terms.simps)
  have s: "fst (toJSONSchema_st (stateless demo_zod) (the_schema \<lparr>the_schema = Record_schema\<rparr>) ())
             = fst (toJSONSchema_st (stateless demo_zod) (the_schema \<lparr>the_schema = Direct_schema\<rparr>) ())"
    by (simp add: stateless_def demo_zod_def)
  note t = toJsonSchema_compact_and_pretty
             [of "stateless demo_zod" "\<lparr>the_schema = Direct_schema\<rparr>" "()" "Some True"
                 demo_document "()"]
  note layouts = t [THEN conjunct2, THEN conjunct2, THEN conjunct1, rule_format, OF h]
  note same = t [THEN conjunct2, THEN conjunct2, THEN conjunct2, rule_format, OF s]
  from layouts same h r show ?thesis
    by (elim conjE) simp
qed

text \<open>
  The two layouts of \<^verbatim>\<open>{"minimum": 0.5, "maximum": 1e+21, "multipleOf": 0.0000001}\<close>,
  character by character, and the document read back from the first.
\<close>

lemma JSON_stringify_example:
  "JSON_stringify (JObject [(''minimum'', JNumber (Finite False 5 (- 1))),
                            (''maximum'', JNumber (Finite False 1 21)),
                            (''multipleOf'', JNumber (Finite False 1 (- 7)))]) 0
     = ''{'' @ [dquote] @ ''minimum'' @ [dquote] @ '':0.5,'' @ [dquote] @ ''maximum'' @ [dquote]
         @ '':1e+21,'' @ [dquote] @ ''multipleOf'' @ [dquote] @ '':1e-7}''"
  "JSON_stringify (JObject [(''a'', JArray [JNumber (Finite False 125 (- 2)), JBool True])]) 2
     = ''{'' @ [newline] @ ''  '' @ [dquote] @ ''a'' @ [dquote] @ '': ['' @ [newline]
         @ ''    1.25,'' @ [newline] @ ''    true'' @ [newline] @ ''  ]'' @ [newline] @ ''}''"
  "JSON_parse (''{'' @ [dquote] @ ''minimum'' @ [dquote] @ '':0.5,'' @ [dquote] @ ''maximum''
                @ [dquote] @ '':1e+21}'')
     = Some (JObject [(''minimum'', JNumber (Finite False 5 (- 1))),
                      (''maximum'', JNumber (Finite False 1 21))])"
  by (simp_all add: JSON_stringify_def wrap_partial_def QuoteJSONString_def quote_unit_def
        is_finite_def lowest_terms.simps decimal_text_def exponent_text_def Let_def
        nat_digits.simps digit_char_def dquote_def backslash_def newline_def numeral_2_eq_2
        JSON_parse_def tokenize.simps push_token_def is_ws_def is_digit_def scan_number_def
        scan_fraction_def scan_exponent_def digits_to_nat_def digit_value_def simple_escape_def
        push_char_def)

text \<open>
  The compact text of the document of \<^verbatim>\<open>directSchema\<close> is, character by character,
  the text that the tests of the repository record for \<^verbatim>\<open>engine.toJsonSchema()\<close>.
\<close>

lemma demo_document_text:
  "JSON_stringify demo_document 0
     = ''{'' @ [dquote] @ ''$schema'' @ [dquote] @ '':'' @ [dquote]
         @ ''https://json-schema.org/draft/2020-12/schema'' @ [dquote] @ '','' @ [dquote]
         @ ''type'' @ [dquote] @ '':'' @ [dquote] @ ''object'' @ [dquote] @ '','' @ [dquote]
         @ ''properties'' @ [dquote] @ '':{'' @ [dquote] @ ''id'' @ [dquote] @ '':{''
         @ [dquote] @ ''type'' @ [dquote] @ '':'' @ [dquote] @ ''integer'' @ [dquote] @ '',''
         @ [dquote] @ ''exclusiveMinimum'' @ [dquote] @ '':0,'' @ [dquote] @ ''maximum''
         @ [dquote] @ '':9007199254740991},'' @ [dquote] @ ''title'' @ [dquote] @ '':{''
         @ [dquote] @ ''type'' @ [dquote] @ '':'' @ [dquote] @ ''string'' @ [dquote] @ '',''
         @ [dquote] @ ''minLength'' @ [dquote] @ '':1,'' @ [dquote] @ ''maxLength'' @ [dquote]
         @ '':100},'' @ [dquote] @ ''tags'' @ [dquote] @ '':{'' @ [dquote] @ ''type''
         @ [dquote] @ '':'' @ [dquote] @ ''array'' @ [dquote] @ '','' @ [dquote] @ ''items''
         @ [dquote] @ '':{'' @ [dquote] @ ''type'' @ [dquote] @ '':'' @ [dquote] @ ''string''
         @ [dquote] @ ''}}},'' @ [dquote] @ ''required'' @ [dquote] @ '':['' @ [dquote]
         @ ''id'' @ [dquote] @ '','' @ [dquote] @ ''title'' @ [dquote] @ ''],'' @ [dquote]
         @ ''additionalProperties'' @ [dquote] @ '':false}''"
proof -
  have numbers:
    "Number_text (Finite False 0 0) = ''0''"
    "Number_text (Finite False (Suc 0) 0) = ''1''"
    "Number_text (Finite False (Suc 0) 2) = ''100''"
    by (simp_all add: lowest_terms.simps decimal_text_def Let_def nat_digits.simps digit_char_def
          numeral_2_eq_2)
  have maximum: "Number_text (Finite False 9007199254740991 0) = ''9007199254740991''"
    by (simp add: lowest_terms.simps decimal_text_def Let_def nat_digits.simps digit_char_def)
  show ?thesis
    by (simp add: demo_document_def JSON_stringify_def wrap_partial_def QuoteJSONString_def
          quote_unit_def is_finite_def numbers maximum dquote_def backslash_def
          del: Number_text.simps)
qed

end
